theory Spec2Isabelle
  imports Main
begin

section \<open>Data model\<close>

text \<open>
  \<^verbatim>\<open>LogEntry\<close> of \<^verbatim>\<open>types.ts\<close>: the three log kinds and the record handed to the log
  callback.
\<close>

datatype log_type = Info | Error | Success

record LogEntry =
  entry_type :: log_type
  message :: string
  timestamp :: int

text \<open>
  A browser \<^verbatim>\<open>File\<close>: name, MIME type, size in bytes and content. The size is a field of
  its own, as it is in the browser; a file built from data has the length of the data.
\<close>

record File =
  file_name :: string
  file_type :: string
  file_size :: nat
  file_data :: "nat list"

definition newFile :: "nat list \<Rightarrow> string \<Rightarrow> string \<Rightarrow> File" where
  "newFile d n t = \<lparr>file_name = n, file_type = t, file_size = length d, file_data = d\<rparr>"

text \<open>An entry of the engine's directory listing (\<^verbatim>\<open>FSNode\<close>), with the bytes it holds.\<close>

record FSNode =
  node_name :: string
  node_isDir :: bool
  node_data :: "nat list"

text \<open>
  Every call that leaves the adapter: the browser's \<^verbatim>\<open>fetch\<close>, \<^verbatim>\<open>Response.text\<close>,
  \<^verbatim>\<open>URL.createObjectURL\<close>, the library's \<^verbatim>\<open>toBlobURL\<close>, and the engine's operations.
\<close>

datatype call =
    Fetch string
  | ResponseText
  | CreateObjectURL string string
  | ToBlobURL string string
  | EngineLoad string string string string
  | CreateDir string
  | Mount string "File list" string
  | Exec "string list"
  | Unmount string
  | DeleteDir string
  | ListDir string
  | ReadFile string
  | DeleteFile string

text \<open>
  The part of the world the adapter reads and writes: the \<^verbatim>\<open>loaded\<close> flag of the
  service, the entries of the engine's working directory, and the traces of what the
  adapter did and saw: the external calls in order, the listings that \<^verbatim>\<open>listDir\<close>
  returned, the entries given to the log callback, the values given to \<^verbatim>\<open>onProgress\<close>,
  and the \<^verbatim>\<open>console.warn\<close> lines.
\<close>

record world =
  loaded :: bool
  memfs :: "FSNode list"
  calls :: "call list"
  listings :: "FSNode list list"
  logs :: "LogEntry list"
  progress :: "nat list"
  console :: "string list"

text \<open>
  What the adapter does not decide. Each field is a function of the calls made so far, so
  that the same operation may answer differently each time:
  \<^item> \<open>fault h c\<close>: the call \<open>c\<close> throws, with this message;
  \<^item> \<open>response h url\<close>: \<^verbatim>\<open>ok\<close>, \<^verbatim>\<open>statusText\<close> and body of the response to a fetch;
  \<^item> \<open>blob_url h c\<close>: the URL that \<^verbatim>\<open>createObjectURL\<close> or \<^verbatim>\<open>toBlobURL\<close> returns;
  \<^item> \<open>engine_log h c\<close>: the messages the engine emits on its \<^verbatim>\<open>log\<close> event during \<open>c\<close>;
  \<^item> \<open>effect h c\<close>: what an engine operation other than reading, deleting and listing
    files does to the working directory (whether it throws or not);
  \<^item> \<open>clock n\<close>: \<^verbatim>\<open>Date.now()\<close> at the \<open>n\<close>-th log entry.
\<close>

record env =
  crossOriginIsolated :: bool
  fault :: "call list \<Rightarrow> call \<Rightarrow> string option"
  response :: "call list \<Rightarrow> string \<Rightarrow> bool \<times> string \<times> string"
  blob_url :: "call list \<Rightarrow> call \<Rightarrow> string"
  engine_log :: "call list \<Rightarrow> call \<Rightarrow> string list"
  effect :: "call list \<Rightarrow> call \<Rightarrow> FSNode list \<Rightarrow> FSNode list"
  clock :: "nat \<Rightarrow> int"

text \<open>
  The two kinds of failure a caller sees: \<^verbatim>\<open>load\<close> throws a new error whose message
  starts with \<^verbatim>\<open>FFmpeg Load Error: \<close>; \<^verbatim>\<open>splitVideo\<close> rethrows the error it caught.
\<close>

datatype error = EngineLoadError string | SegmentError string

section \<open>Actions: state passing with errors\<close>

type_synonym 'a action = "world \<Rightarrow> (string + 'a) \<times> world"

definition returnE :: "'a \<Rightarrow> 'a action" where
  "returnE x w = (Inr x, w)"

definition throwE :: "string \<Rightarrow> 'a action" where
  "throwE m w = (Inl m, w)"

definition bindE :: "'a action \<Rightarrow> ('a \<Rightarrow> 'b action) \<Rightarrow> 'b action" where
  "bindE m f w = (case m w of (Inl e, w') \<Rightarrow> (Inl e, w') | (Inr x, w') \<Rightarrow> f x w')"

definition thenE :: "unit action \<Rightarrow> 'b action \<Rightarrow> 'b action" where
  "thenE m k = bindE m (\<lambda>_. k)"

text \<open>\<^verbatim>\<open>try { m } catch (e) { h(e) }\<close> where the handler cannot fail.\<close>

definition catchE :: "unit action \<Rightarrow> (string \<Rightarrow> world \<Rightarrow> world) \<Rightarrow> unit action" where
  "catchE m h w = (case m w of (Inl e, w') \<Rightarrow> (Inr (), h e w') | (Inr x, w') \<Rightarrow> (Inr x, w'))"

text \<open>
  \<^verbatim>\<open>this.log\<close> hands an entry to the log callback, and \<^verbatim>\<open>onProgress\<close> is the progress
  callback. Those of the application append to a list and set a number: they cannot
  throw, and the model records what they were given.
\<close>

definition log :: "env \<Rightarrow> log_type \<Rightarrow> string \<Rightarrow> world \<Rightarrow> world" where
  "log env t m w =
     w\<lparr>logs := logs w @ [\<lparr>entry_type = t, message = m, timestamp = clock env (length (logs w))\<rparr>]\<rparr>"

definition logE :: "env \<Rightarrow> log_type \<Rightarrow> string \<Rightarrow> unit action" where
  "logE env t m w = (Inr (), log env t m w)"

definition onProgress :: "nat \<Rightarrow> unit action" where
  "onProgress p w = (Inr (), w\<lparr>progress := progress w @ [p]\<rparr>)"

text \<open>
  An external call: it is appended to the trace, the engine's log events of the
  constructor's hook (\<^verbatim>\<open>this.ffmpeg.on('log', ...)\<close>) are logged as \<^verbatim>\<open>info\<close>, and the
  call throws if the environment says so.
\<close>

definition perform :: "env \<Rightarrow> call \<Rightarrow> unit action" where
  "perform env c w =
     (let h = calls w;
          w1 = w\<lparr>calls := h @ [c]\<rparr>;
          w2 = foldl (\<lambda>v m. log env Info m v) w1 (engine_log env h c)
      in (case fault env h c of Some m \<Rightarrow> (Inl m, w2) | None \<Rightarrow> (Inr (), w2)))"

text \<open>An engine operation whose effect on the working directory the engine decides.\<close>

definition engineOp :: "env \<Rightarrow> call \<Rightarrow> unit action" where
  "engineOp env c w =
     (let h = calls w in
      case perform env c w of (r, w') \<Rightarrow> (r, w'\<lparr>memfs := effect env h c (memfs w')\<rparr>))"

section \<open>Patching the worker script\<close>

definition startsWith :: "string \<Rightarrow> string \<Rightarrow> bool" where
  "startsWith p s = (take (length p) s = p)"

definition endsWith :: "string \<Rightarrow> string \<Rightarrow> bool" where
  "endsWith p s = (length p \<le> length s \<and> drop (length s - length p) s = p)"

text \<open>
  The character classes of the regular expression, on 8-bit characters: \<^verbatim>\<open>\s\<close> is tab,
  line feed, vertical tab, form feed, carriage return, space and no-break space; \<^verbatim>\<open>.\<close>
  is every character but the line terminators; \<^verbatim>\<open>['"]\<close> is one of the two quotes.
\<close>

definition is_space :: "char \<Rightarrow> bool" where
  "is_space c = (c \<in> {CHR 0x09, CHR 0x0A, CHR 0x0B, CHR 0x0C, CHR 0x0D, CHR 0x20, CHR 0xA0})"

definition is_quote :: "char \<Rightarrow> bool" where
  "is_quote c = (c = CHR 0x27 \<or> c = CHR 0x22)"

definition is_line_terminator :: "char \<Rightarrow> bool" where
  "is_line_terminator c = (c = CHR 0x0A \<or> c = CHR 0x0D)"

definition in_name :: "char \<Rightarrow> bool" where
  "in_name c = (\<not> is_quote c \<and> \<not> is_line_terminator c)"

text \<open>
  One attempt to match \<^verbatim>\<open>/from\s*['"]\.\/(.*?)['"]/\<close> at the head of the text: the
  captured group and the text after the match. \<^verbatim>\<open>\s*\<close> is greedy and the next item is
  not a space, so it takes all the spaces; \<^verbatim>\<open>(.*?)\<close> is lazy and the next item is a
  quote, so it stops at the first quote, and fails if a line terminator or the end of
  the text comes first.
\<close>

definition match_import :: "string \<Rightarrow> (string \<times> string) option" where
  "match_import s =
     (if \<not> startsWith ''from'' s then None
      else (case dropWhile is_space (drop 4 s) of
              [] \<Rightarrow> None
            | q # s2 \<Rightarrow>
                if \<not> is_quote q then None
                else if \<not> startsWith ''./'' s2 then None
                else (case dropWhile in_name (drop 2 s2) of
                        [] \<Rightarrow> None
                      | c # rest \<Rightarrow>
                          if is_quote c then Some (takeWhile in_name (drop 2 s2), rest)
                          else None)))"

lemma match_import_shorter: "match_import s = Some (p1, rest) \<Longrightarrow> length rest < length s"
proof -
  assume m: "match_import s = Some (p1, rest)"
  then obtain q s2 where a: "dropWhile is_space (drop 4 s) = q # s2"
    by (auto simp: match_import_def split: if_splits list.splits)
  from m a obtain c where b: "dropWhile in_name (drop 2 s2) = c # rest"
    by (auto simp: match_import_def split: if_splits list.splits)
  have "length (c # rest) \<le> length (drop 2 s2)"
    unfolding b [symmetric] by (rule length_dropWhile_le)
  moreover have "length (q # s2) \<le> length (drop 4 s)"
    unfolding a [symmetric] by (rule length_dropWhile_le)
  ultimately show ?thesis by simp
qed

text \<open>
  \<^verbatim>\<open>workerScript.replace(/.../g, (match, p1) => `from '${baseURL}/${p1}'`)\<close>: the text is
  scanned from the left; a match is replaced and the scan goes on after it; where there
  is no match the character is kept.
\<close>

function replace_imports :: "string \<Rightarrow> string \<Rightarrow> string" where
  "replace_imports base [] = []"
| "replace_imports base (c # cs) =
     (case match_import (c # cs) of
        Some (p1, rest) \<Rightarrow>
          ''from '' @ [CHR 0x27] @ base @ ''/'' @ p1 @ [CHR 0x27] @ replace_imports base rest
      | None \<Rightarrow> c # replace_imports base cs)"
  by pat_completeness auto
termination
  by (relation "measure (\<lambda>(base, s). length s)") (auto dest: match_import_shorter)

section \<open>Bootstrap: \<^verbatim>\<open>FFmpegService.load\<close>\<close>

definition baseURL :: string where
  "baseURL = ''https://cdn.jsdelivr.net/npm/@ffmpeg/ffmpeg@0.12.10/dist/esm''"

definition coreBase :: string where
  "coreBase = ''https://cdn.jsdelivr.net/npm/@ffmpeg/core@0.12.6/dist/esm''"

definition no_imports_warning :: string where
  "no_imports_warning = ''Warning: No imports patched in worker script. Regex might be mismatched.''"

text \<open>\<^verbatim>\<open>fetch(url)\<close>, then the check of \<^verbatim>\<open>ok\<close>, then \<^verbatim>\<open>text()\<close>.\<close>

definition fetchWorker :: "env \<Rightarrow> string action" where
  "fetchWorker env w =
     (let h = calls w; url = baseURL @ ''/worker.js'' in
      bindE (perform env (Fetch url)) (\<lambda>_.
        case response env h url of (ok, statusText, body) \<Rightarrow>
          if \<not> ok then throwE (''Failed to fetch worker: '' @ statusText)
          else thenE (perform env ResponseText) (returnE body)) w)"

definition createObjectURL :: "env \<Rightarrow> string \<Rightarrow> string \<Rightarrow> string action" where
  "createObjectURL env content mime w =
     (let h = calls w; c = CreateObjectURL content mime in
      thenE (perform env c) (returnE (blob_url env h c)) w)"

definition toBlobURL :: "env \<Rightarrow> string \<Rightarrow> string \<Rightarrow> string action" where
  "toBlobURL env url mime w =
     (let h = calls w; c = ToBlobURL url mime in
      thenE (perform env c) (returnE (blob_url env h c)) w)"

definition markLoaded :: "unit action" where
  "markLoaded w = (Inr (), w\<lparr>loaded := True\<rparr>)"

text \<open>The body of the \<^verbatim>\<open>try\<close> block of \<^verbatim>\<open>load\<close>.\<close>

definition load_body :: "env \<Rightarrow> unit action" where
  "load_body env =
     thenE (logE env Info ''Checking environment capabilities...'')
    (thenE (if \<not> crossOriginIsolated env
            then logE env Info
                   ''Note: SharedArrayBuffer is not available. Using single-threaded core.''
            else returnE ())
    (thenE (logE env Info ''Loading FFmpeg resources...'')
    (thenE (logE env Info ''Fetching worker script...'')
    (bindE (fetchWorker env) (\<lambda>oldScript.
     thenE (logE env Info ''Patching worker imports...'')
    (let workerScript = replace_imports baseURL oldScript in
     thenE (if workerScript = oldScript then logE env Info no_imports_warning else returnE ())
    (bindE (createObjectURL env workerScript ''text/javascript'') (\<lambda>workerURL.
     thenE (logE env Info (''Created worker blob: '' @ workerURL))
    (bindE (toBlobURL env (coreBase @ ''/ffmpeg-core.js'') ''text/javascript'') (\<lambda>coreURL.
     bindE (toBlobURL env (coreBase @ ''/ffmpeg-core.wasm'') ''application/wasm'') (\<lambda>wasmURL.
     thenE (logE env Info ''Initializing FFmpeg engine...'')
    (thenE (engineOp env (EngineLoad coreURL wasmURL workerURL workerURL))
    (thenE markLoaded
           (logE env Success ''FFmpeg core loaded successfully.''))))))))))))))"

text \<open>
  \<^verbatim>\<open>load\<close>: nothing at all when already loaded; otherwise the body, and on any error of
  the body an error log entry and a new error that wraps the message.
\<close>

definition load :: "env \<Rightarrow> world \<Rightarrow> (error + unit) \<times> world" where
  "load env w =
     (if loaded w then (Inr (), w)
      else (case load_body env w of
              (Inr u, w') \<Rightarrow> (Inr (), w')
            | (Inl msg, w') \<Rightarrow>
                (Inl (EngineLoadError (''FFmpeg Load Error: '' @ msg)),
                 log env Error (''Failed to load FFmpeg: '' @ msg) w')))"

section \<open>Segment: \<^verbatim>\<open>FFmpegService.splitVideo\<close>\<close>

definition inputFileName :: string where
  "inputFileName = ''input.mp4''"

definition mountDir :: string where
  "mountDir = ''/input_mount''"

definition inputPath :: string where
  "inputPath = mountDir @ ''/'' @ inputFileName"

definition outputPattern :: string where
  "outputPattern = ''output_%03d.mp4''"

text \<open>\<^verbatim>\<open>new File([file], inputFileName, { type: file.type })\<close>: the same bytes, renamed.\<close>

definition safeFile :: "File \<Rightarrow> File" where
  "safeFile file = file\<lparr>file_name := inputFileName\<rparr>"

text \<open>\<^verbatim>\<open>Number.prototype.toString\<close> on an integer: decimal digits, a minus sign if negative.\<close>

definition digit_char :: "nat \<Rightarrow> char" where
  "digit_char n = char_of (48 + n)"

function string_of_nat :: "nat \<Rightarrow> string" where
  "string_of_nat n =
     (if n < 10 then [digit_char n] else string_of_nat (n div 10) @ [digit_char (n mod 10)])"
  by pat_completeness auto
termination
  by (relation "measure id") auto

definition toString :: "int \<Rightarrow> string" where
  "toString i = (if i < 0 then ''-'' @ string_of_nat (nat (- i)) else string_of_nat (nat i))"

definition exec_args :: "int \<Rightarrow> string list" where
  "exec_args segmentDuration =
     [''-i'', inputPath,
      ''-c'', ''copy'',
      ''-map'', ''0'',
      ''-f'', ''segment'',
      ''-segment_time'', toString segmentDuration,
      ''-reset_timestamps'', ''1'',
      outputPattern]"

text \<open>
  The engine's file operations on its working directory. Reading and deleting a name that
  is not a file of the directory fail with the engine's own error, whose text does not
  matter here; deleting removes the file and nothing else.
\<close>

definition fs_error :: string where
  "fs_error = ''FS error''"

definition is_file :: "string \<Rightarrow> FSNode \<Rightarrow> bool" where
  "is_file n f = (node_name f = n \<and> \<not> node_isDir f)"

definition listDir :: "env \<Rightarrow> string \<Rightarrow> FSNode list action" where
  "listDir env path =
     thenE (perform env (ListDir path))
       (\<lambda>w. (Inr (memfs w), w\<lparr>listings := listings w @ [memfs w]\<rparr>))"

definition readFile :: "env \<Rightarrow> string \<Rightarrow> nat list action" where
  "readFile env n =
     thenE (perform env (ReadFile n))
       (\<lambda>w. case find (is_file n) (memfs w) of
               None \<Rightarrow> (Inl fs_error, w)
             | Some f \<Rightarrow> (Inr (node_data f), w))"

definition deleteFile :: "env \<Rightarrow> string \<Rightarrow> unit action" where
  "deleteFile env n =
     thenE (perform env (DeleteFile n))
       (\<lambda>w. if list_ex (is_file n) (memfs w)
             then (Inr (), w\<lparr>memfs := filter (\<lambda>f. \<not> is_file n f) (memfs w)\<rparr>)
             else (Inl fs_error, w))"

text \<open>The test of the loop: a file whose name starts with \<^verbatim>\<open>output_\<close> and ends with \<^verbatim>\<open>.mp4\<close>.\<close>

definition is_output :: "FSNode \<Rightarrow> bool" where
  "is_output f =
     (\<not> node_isDir f \<and> startsWith ''output_'' (node_name f) \<and> endsWith ''.mp4'' (node_name f))"

text \<open>
  The loop over the listing: each output file is read, wrapped in a \<^verbatim>\<open>video/mp4\<close> file of
  the same name, appended to the result, and deleted from the working directory.
\<close>

fun extractOutputs :: "env \<Rightarrow> FSNode list \<Rightarrow> File list \<Rightarrow> File list action" where
  "extractOutputs env [] files = returnE files"
| "extractOutputs env (f # dir) files =
     (if is_output f
      then bindE (readFile env (node_name f)) (\<lambda>data.
           thenE (deleteFile env (node_name f))
                 (extractOutputs env dir (files @ [newFile data (node_name f) ''video/mp4''])))
      else extractOutputs env dir files)"

text \<open>\<^verbatim>\<open>unmount\<close> then \<^verbatim>\<open>deleteDir\<close>, as both the inner \<^verbatim>\<open>try\<close> and the \<^verbatim>\<open>catch\<close> block do.\<close>

definition unmountAndDelete :: "env \<Rightarrow> unit action" where
  "unmountAndDelete env = thenE (engineOp env (Unmount mountDir)) (engineOp env (DeleteDir mountDir))"

definition warn :: "string \<Rightarrow> world \<Rightarrow> world" where
  "warn e w = w\<lparr>console := console w @ [''Cleanup warning: '' @ e]\<rparr>"

text \<open>The body of the \<^verbatim>\<open>try\<close> block of \<^verbatim>\<open>splitVideo\<close>.\<close>

definition split_body :: "env \<Rightarrow> File \<Rightarrow> int \<Rightarrow> File list action" where
  "split_body env safe segmentDuration =
     thenE (logE env Info ''Mounting input file...'')
    (thenE (engineOp env (CreateDir mountDir))
    (thenE (engineOp env (Mount ''WORKERFS'' [safe] mountDir))
    (thenE (logE env Info
              (''Starting segmentation (Duration: '' @ toString segmentDuration @ ''s)...''))
    (thenE (onProgress 10)
    (thenE (engineOp env (Exec (exec_args segmentDuration)))
    (thenE (onProgress 80)
    (thenE (logE env Success ''Segmentation complete. Processing output files...'')
    (thenE (catchE (unmountAndDelete env) warn)
    (bindE (listDir env ''.'') (\<lambda>dir.
     bindE (extractOutputs env dir []) (\<lambda>files.
     thenE (onProgress 100)
           (returnE files))))))))))))"

text \<open>The \<^verbatim>\<open>catch\<close> block: cleanup whose own error is dropped, an error log entry.\<close>

definition on_split_error :: "env \<Rightarrow> string \<Rightarrow> world \<Rightarrow> world" where
  "on_split_error env msg w =
     log env Error (''Processing failed: '' @ msg)
       (snd (catchE (unmountAndDelete env) (\<lambda>e v. v) w))"

definition splitVideo :: "env \<Rightarrow> File \<Rightarrow> int \<Rightarrow> world \<Rightarrow> (error + File list) \<times> world" where
  "splitVideo env file segmentDuration w =
     (case (if \<not> loaded w then load env w else (Inr (), w)) of
        (Inl e, w1) \<Rightarrow> (Inl e, w1)
      | (Inr u, w1) \<Rightarrow>
          (case split_body env (safeFile file) segmentDuration w1 of
             (Inr files, w2) \<Rightarrow> (Inr files, w2)
           | (Inl msg, w2) \<Rightarrow> (Inl (SegmentError msg), on_split_error env msg w2)))"

section \<open>The file-selection interface: \<^verbatim>\<open>VideoUploader\<close>\<close>

text \<open>
  The component's \<^verbatim>\<open>error\<close> state and the files it handed to \<^verbatim>\<open>onFileSelect\<close>, in order.
\<close>

record uploader =
  upload_error :: "string option"
  passed :: "File list"

definition validateAndPass :: "File \<Rightarrow> uploader \<Rightarrow> uploader" where
  "validateAndPass file u =
     (if \<not> startsWith ''video/'' (file_type file)
      then u\<lparr>upload_error := Some ''Please upload a valid video file.''\<rparr>
      else if file_size file > 5 * 1024 * 1024 * 1024
      then u\<lparr>upload_error := Some ''For browser performance, please use videos under 5GB.''\<rparr>
      else u\<lparr>upload_error := None, passed := passed u @ [file]\<rparr>)"

section \<open>The segment duration: \<^verbatim>\<open>ClipSettings\<close> and \<^verbatim>\<open>App\<close>\<close>

text \<open>
  \<^verbatim>\<open>parseInt\<close> with no radix: leading white space is skipped, then a sign, then \<^verbatim>\<open>0x\<close> or
  \<^verbatim>\<open>0X\<close> selects radix 16, then the longest run of digits is read; no digit gives
  \<^verbatim>\<open>NaN\<close> (\<open>None\<close>). The value is the integer read, before its rounding to a double.
\<close>

definition digit_of :: "char \<Rightarrow> nat option" where
  "digit_of c =
     (let n = (of_char c :: nat) in
      if 48 \<le> n \<and> n \<le> 57 then Some (n - 48)
      else if 97 \<le> n \<and> n \<le> 122 then Some (n - 87)
      else if 65 \<le> n \<and> n \<le> 90 then Some (n - 55)
      else None)"

definition is_digit :: "nat \<Rightarrow> char \<Rightarrow> bool" where
  "is_digit radix c = (case digit_of c of None \<Rightarrow> False | Some d \<Rightarrow> d < radix)"

definition digits_value :: "nat \<Rightarrow> string \<Rightarrow> nat" where
  "digits_value radix z = foldl (\<lambda>a c. a * radix + (case digit_of c of None \<Rightarrow> 0 | Some d \<Rightarrow> d)) 0 z"

definition parseInt :: "string \<Rightarrow> int option" where
  "parseInt str =
     (let s = dropWhile is_space str;
          sign = (if startsWith ''-'' s then - 1 else 1);
          s1 = (if startsWith ''-'' s \<or> startsWith ''+'' s then drop 1 s else s);
          hex = (startsWith ''0x'' s1 \<or> startsWith ''0X'' s1);
          radix = (if hex then 16 else 10);
          s2 = (if hex then drop 2 s1 else s1);
          z = takeWhile (is_digit radix) s2
      in if z = [] then None else Some (sign * int (digits_value radix z)))"

text \<open>
  The \<^verbatim>\<open>onChange\<close> handler of the input: \<^verbatim>\<open>Math.max(1, parseInt(value) || 1)\<close>, where
  \<^verbatim>\<open>||\<close> replaces \<^verbatim>\<open>NaN\<close> and \<^verbatim>\<open>0\<close>.
\<close>

definition onChange :: "string \<Rightarrow> int" where
  "onChange v = max 1 (case parseInt v of None \<Rightarrow> 1 | Some n \<Rightarrow> if n = 0 then 1 else n)"

datatype AppState = IDLE | LOADING_CORE | READY | PROCESSING | COMPLETED | ERROR

text \<open>
  The state of \<^verbatim>\<open>App\<close> that its handlers read and write (the video length shown next to
  the setting is presentation only and is left out), the world of its one service, and
  the arguments of every \<^verbatim>\<open>splitVideo\<close> call it made.
\<close>

record app =
  state :: AppState
  videoFile :: "File option"
  splitDuration :: int
  ui_logs :: "LogEntry list"
  ui_progress :: nat
  outputFiles :: "File list"
  errorMessage :: string
  picker :: uploader
  service :: world
  split_calls :: "(File \<times> int) list"

definition error_message :: "error \<Rightarrow> string" where
  "error_message e = (case e of EngineLoadError m \<Rightarrow> m | SegmentError m \<Rightarrow> m)"

text \<open>The first render and the effect that creates the service and preloads the engine.\<close>

definition app_init :: "env \<Rightarrow> world \<Rightarrow> app" where
  "app_init env w =
     (case load env w of (r, w') \<Rightarrow>
        \<lparr>state = (case r of Inr u \<Rightarrow> READY | Inl e \<Rightarrow> ERROR),
         videoFile = None,
         splitDuration = 30,
         ui_logs = drop (length (logs w)) (logs w'),
         ui_progress = 0,
         outputFiles = [],
         errorMessage = (case r of Inr u \<Rightarrow> [] | Inl e \<Rightarrow> error_message e),
         picker = \<lparr>upload_error = None, passed = []\<rparr>,
         service = w',
         split_calls = []\<rparr>)"

definition handleSplit :: "env \<Rightarrow> app \<Rightarrow> app" where
  "handleSplit env a =
     (case videoFile a of
        None \<Rightarrow> a
      | Some file \<Rightarrow>
          (case splitVideo env file (splitDuration a) (service a) of (r, w') \<Rightarrow>
             let b = a\<lparr>service := w',
                       split_calls := split_calls a @ [(file, splitDuration a)],
                       ui_logs := drop (length (logs (service a))) (logs w'),
                       ui_progress := (case drop (length (progress (service a))) (progress w') of
                                         [] \<Rightarrow> 0 | p # ps \<Rightarrow> last (p # ps))\<rparr>
             in (case r of
                   Inr resultFiles \<Rightarrow> b\<lparr>outputFiles := resultFiles, state := COMPLETED\<rparr>
                 | Inl e \<Rightarrow> b\<lparr>errorMessage := error_message e, state := ERROR\<rparr>)))"

definition handleReset :: "app \<Rightarrow> app" where
  "handleReset a =
     a\<lparr>videoFile := None, outputFiles := [], ui_progress := 0, ui_logs := [], state := READY\<rparr>"

text \<open>
  What the user can do: pick or drop a file (which goes through \<^verbatim>\<open>validateAndPass\<close> and, if
  it passes, \<^verbatim>\<open>handleFileSelect\<close>), press Change, type into the interval input, press
  Start Splitting, press the reset button of the results.
\<close>

datatype event = PickFile File | ChangeFile | TypeDuration string | StartSplitting | Reset

definition handle :: "env \<Rightarrow> app \<Rightarrow> event \<Rightarrow> app" where
  "handle env a ev =
     (case ev of
        PickFile file \<Rightarrow>
          (let u = validateAndPass file (picker a) in
           if passed u = passed (picker a) then a\<lparr>picker := u\<rparr>
           else a\<lparr>picker := u, videoFile := Some file\<rparr>)
      | ChangeFile \<Rightarrow> a\<lparr>videoFile := None\<rparr>
      | TypeDuration v \<Rightarrow> a\<lparr>splitDuration := onChange v\<rparr>
      | StartSplitting \<Rightarrow> handleSplit env a
      | Reset \<Rightarrow> handleReset a)"

definition run :: "env \<Rightarrow> app \<Rightarrow> event list \<Rightarrow> app" where
  "run env a evs = foldl (handle env) a evs"

section \<open>Auxiliary notions for the proofs\<close>

text \<open>The invariant of the duration setting and of the calls made with it.\<close>

definition dur_inv :: "app \<Rightarrow> bool" where
  "dur_inv a = (1 \<le> splitDuration a \<and> list_all (\<lambda>(f, d). 1 \<le> d) (split_calls a))"

text \<open>An action leaves an observation of the world as it was.\<close>

definition frame :: "(world \<Rightarrow> 'x) \<Rightarrow> 'a action \<Rightarrow> bool" where
  "frame g m = (\<forall>w. g (snd (m w)) = g w)"

text \<open>
  From a world that satisfies \<open>P\<close>, the action either returns a value and a world that
  satisfy \<open>Q\<close>, or throws a message and leaves a world that satisfy \<open>E\<close>.
\<close>

definition triple ::
  "(world \<Rightarrow> bool) \<Rightarrow> 'a action \<Rightarrow> ('a \<Rightarrow> world \<Rightarrow> bool) \<Rightarrow> (string \<Rightarrow> world \<Rightarrow> bool) \<Rightarrow> bool" where
  "triple P m Q E =
     (\<forall>w. P w \<longrightarrow> (case m w of (Inr x, w') \<Rightarrow> Q x w' | (Inl e, w') \<Rightarrow> E e w'))"

text \<open>The world after an external call, whether the call throws or not.\<close>

definition performed :: "env \<Rightarrow> call \<Rightarrow> world \<Rightarrow> world" where
  "performed env c w =
     foldl (\<lambda>v m. log env Info m v) (w\<lparr>calls := calls w @ [c]\<rparr>) (engine_log env (calls w) c)"

text \<open>The trace of calls and the \<^verbatim>\<open>loaded\<close> flag of a world.\<close>

definition St :: "call list \<Rightarrow> bool \<Rightarrow> world \<Rightarrow> bool" where
  "St h l w = (calls w = h \<and> loaded w = l)"

text \<open>
  The steps of Bootstrap as the spec lists them (fetch the worker script, package the
  patched script, fetch the core and the binary payload, initialize the engine), as the
  external calls they are, each with the arguments that the answers to the earlier
  calls give it. \<open>h\<close> is the trace of calls before the first step.
\<close>

definition bootstrap_calls :: "env \<Rightarrow> call list \<Rightarrow> call list" where
  "bootstrap_calls env h =
     (let c1 = Fetch (baseURL @ ''/worker.js'');
          body = snd (snd (response env h (baseURL @ ''/worker.js'')));
          c2 = ResponseText;
          c3 = CreateObjectURL (replace_imports baseURL body) ''text/javascript'';
          workerURL = blob_url env (h @ [c1, c2]) c3;
          c4 = ToBlobURL (coreBase @ ''/ffmpeg-core.js'') ''text/javascript'';
          coreURL = blob_url env (h @ [c1, c2, c3]) c4;
          c5 = ToBlobURL (coreBase @ ''/ffmpeg-core.wasm'') ''application/wasm'';
          wasmURL = blob_url env (h @ [c1, c2, c3, c4]) c5;
          c6 = EngineLoad coreURL wasmURL workerURL workerURL
      in [c1, c2, c3, c4, c5, c6])"

text \<open>
  A step fails when its call throws, or when it is a fetch whose response is not \<^verbatim>\<open>ok\<close>.
  \<open>first_failure\<close> is the message of the first step that fails, if any.
\<close>

definition step_failure :: "env \<Rightarrow> call list \<Rightarrow> call \<Rightarrow> string option" where
  "step_failure env h c =
     (case fault env h c of
        Some m \<Rightarrow> Some m
      | None \<Rightarrow>
          (case c of
             Fetch url \<Rightarrow>
               (case response env h url of (ok, statusText, body) \<Rightarrow>
                  if ok then None else Some (''Failed to fetch worker: '' @ statusText))
           | _ \<Rightarrow> None))"

fun first_failure :: "env \<Rightarrow> call list \<Rightarrow> call list \<Rightarrow> string option" where
  "first_failure env h [] = None"
| "first_failure env h (c # cs) =
     (case step_failure env h c of
        Some m \<Rightarrow> Some m
      | None \<Rightarrow> first_failure env (h @ [c]) cs)"

text \<open>Sample inputs: a session that is not loaded, one that is, and a video file.\<close>

definition fresh_world :: world where
  "fresh_world =
     \<lparr>loaded = False, memfs = [], calls = [], listings = [], logs = [], progress = [],
      console = []\<rparr>"

definition loaded_world :: world where
  "loaded_world = fresh_world\<lparr>loaded := True\<rparr>"

definition mkv_file :: File where
  "mkv_file = \<lparr>file_name = ''holiday.mkv'', file_type = ''video/x-matroska'', file_size = 3,
                file_data = [1, 2, 3]\<rparr>"

text \<open>
  Sample environments. In \<open>good_env\<close> no call throws, the worker script holds the two
  imports of the spec's example, and the segmentation writes two segments. The others
  differ from it in one answer: the worker script is not found; the worker script has no
  import; mounting throws; reading the second segment throws.
\<close>

definition segments :: "FSNode list" where
  "segments =
     [\<lparr>node_name = ''output_000.mp4'', node_isDir = False, node_data = [1, 2]\<rparr>,
      \<lparr>node_name = ''output_001.mp4'', node_isDir = False, node_data = [3]\<rparr>]"

definition good_env :: env where
  "good_env =
     \<lparr>crossOriginIsolated = False,
      fault = (\<lambda>h c. None),
      response = (\<lambda>h url. (True, ''OK'',
         ''import{FFmpeg}from\"./classes.js\";import {x} from './util.js';'')),
      blob_url = (\<lambda>h c. ''blob:1''),
      engine_log = (\<lambda>h c. []),
      effect = (\<lambda>h c fs. case c of Exec args \<Rightarrow> fs @ segments | _ \<Rightarrow> fs),
      clock = (\<lambda>n. 0)\<rparr>"

definition not_found_env :: env where
  "not_found_env = good_env\<lparr>response := (\<lambda>h url. (False, ''Not Found'', ''''))\<rparr>"

definition plain_script_env :: env where
  "plain_script_env = good_env\<lparr>response := (\<lambda>h url. (True, ''OK'', ''self.onmessage=f;''))\<rparr>"

definition mount_fails_env :: env where
  "mount_fails_env =
     good_env\<lparr>fault := (\<lambda>h c. case c of Mount t fs d \<Rightarrow> Some ''mount failed'' | _ \<Rightarrow> None)\<rparr>"

definition read_fails_env :: env where
  "read_fails_env =
     good_env\<lparr>fault := (\<lambda>h c. if c = ReadFile ''output_001.mp4'' then Some ''read failed''
                                else None)\<rparr>"

definition is_exec :: "call \<Rightarrow> bool" where
  "is_exec c = (case c of Exec args \<Rightarrow> True | _ \<Rightarrow> False)"

text \<open>The file that the loop builds from an entry of the listing.\<close>

definition toFile :: "FSNode \<Rightarrow> File" where
  "toFile f = newFile (node_data f) (node_name f) ''video/mp4''"

text \<open>
  The names that the pattern \<^verbatim>\<open>output_%03d.mp4\<close> stands for: the segment number in decimal,
  padded with zeros to three digits.
\<close>

definition output_name :: "nat \<Rightarrow> string" where
  "output_name k =
     ''output_'' @ replicate (3 - length (string_of_nat k)) CHR ''0'' @ string_of_nat k @ ''.mp4''"

text \<open>
  A property of the world that no step of the adapter destroys: appending a log entry or
  a call keeps it, and it does not depend on the other fields.
\<close>

definition stable :: "(world \<Rightarrow> bool) \<Rightarrow> bool" where
  "stable P =
     (\<forall>w. P w \<longrightarrow>
        (\<forall>e. P (w\<lparr>logs := logs w @ [e]\<rparr>)) \<and> (\<forall>c. P (w\<lparr>calls := calls w @ [c]\<rparr>))
        \<and> (\<forall>x. P (w\<lparr>memfs := x\<rparr>)) \<and> (\<forall>x. P (w\<lparr>progress := x\<rparr>))
        \<and> (\<forall>x. P (w\<lparr>console := x\<rparr>)) \<and> (\<forall>x. P (w\<lparr>listings := x\<rparr>))
        \<and> P (w\<lparr>loaded := True\<rparr>))"

definition keeps :: "(world \<Rightarrow> bool) \<Rightarrow> 'a action \<Rightarrow> bool" where
  "keeps P m = (\<forall>w. P w \<longrightarrow> P (snd (m w)))"

text \<open>
  A relative module reference as the spec writes it, \<^verbatim>\<open>from './X'\<close>: the word \<^verbatim>\<open>from\<close>, white
  space or none, a quote, \<^verbatim>\<open>./\<close>, the name \<open>X\<close>, a quote. It is well formed when the white
  space is white space, the quotes are quotes, and the name has no quote and no line
  terminator in it. The absolute reference for it is \<^verbatim>\<open>from 'base/X'\<close>.
\<close>

datatype import_ref = Ref string char string char

fun render :: "import_ref \<Rightarrow> string" where
  "render (Ref ws q1 name q2) = ''from'' @ ws @ [q1] @ ''./'' @ name @ [q2]"

fun well_formed :: "import_ref \<Rightarrow> bool" where
  "well_formed (Ref ws q1 name q2) =
     (list_all is_space ws \<and> is_quote q1 \<and> list_all in_name name \<and> is_quote q2)"

fun absolute :: "string \<Rightarrow> import_ref \<Rightarrow> string" where
  "absolute base (Ref ws q1 name q2) = ''from '' @ [CHR 0x27] @ base @ ''/'' @ name @ [CHR 0x27]"

text \<open>No match of the pattern starts inside the stretch \<open>t\<close> of the text \<open>t @ rest\<close>.\<close>

fun no_match_in :: "string \<Rightarrow> string \<Rightarrow> bool" where
  "no_match_in [] rest = True"
| "no_match_in (c # cs) rest = (match_import (c # cs @ rest) = None \<and> no_match_in cs rest)"

text \<open>
  A script given as the stretches of text and the references in it, in order, with the
  text after the last reference: the script itself, the script with every reference made
  absolute, and the condition that the references listed are all there is to match (they
  are well formed and no match starts inside a stretch of text).
\<close>

fun assemble :: "(string \<times> import_ref) list \<Rightarrow> string \<Rightarrow> string" where
  "assemble [] end_text = end_text"
| "assemble ((t, r) # ps) end_text = t @ render r @ assemble ps end_text"

fun rewritten :: "string \<Rightarrow> (string \<times> import_ref) list \<Rightarrow> string \<Rightarrow> string" where
  "rewritten base [] end_text = end_text"
| "rewritten base ((t, r) # ps) end_text = t @ absolute base r @ rewritten base ps end_text"

fun references_listed :: "(string \<times> import_ref) list \<Rightarrow> string \<Rightarrow> bool" where
  "references_listed [] end_text = no_match_in end_text []"
| "references_listed ((t, r) # ps) end_text =
     (no_match_in t (render r @ assemble ps end_text) \<and> well_formed r
      \<and> references_listed ps end_text)"

text \<open>
  The worker script that \<^verbatim>\<open>load\<close> has in hand after a fetch that succeeded, and the warning
  among the log entries.
\<close>

definition fetched :: "env \<Rightarrow> call list \<Rightarrow> string option" where
  "fetched env h =
     (if step_failure env h (Fetch (baseURL @ ''/worker.js'')) = None
         \<and> fault env (h @ [Fetch (baseURL @ ''/worker.js'')]) ResponseText = None
      then Some (snd (snd (response env h (baseURL @ ''/worker.js''))))
      else None)"

definition warned :: "world \<Rightarrow> bool" where
  "warned w = list_ex (\<lambda>e. entry_type e = Info \<and> message e = no_imports_warning) (logs w)"

definition overlap_script :: string where
  "overlap_script = ''/* from './x */import{a}from\"./b.js\"''"

section \<open>The file-selection gate\<close>

text \<open>
  C8. \<^verbatim>\<open>validateAndPass\<close> hands a file to \<^verbatim>\<open>onFileSelect\<close> only if its type starts with
  \<^verbatim>\<open>video/\<close> and its size is at most \<open>5 * 1024 * 1024 * 1024\<close> bytes, and then it clears
  the error; for a file that breaks either condition it sets an error message and does
  not call \<^verbatim>\<open>onFileSelect\<close>.
\<close>

theorem validateAndPass_gate:
  "(startsWith ''video/'' (file_type file) \<and> file_size file \<le> 5 * 1024 * 1024 * 1024
      \<longrightarrow> passed (validateAndPass file u) = passed u @ [file]
        \<and> upload_error (validateAndPass file u) = None)
   \<and> (\<not> (startsWith ''video/'' (file_type file) \<and> file_size file \<le> 5 * 1024 * 1024 * 1024)
      \<longrightarrow> passed (validateAndPass file u) = passed u
        \<and> upload_error (validateAndPass file u) \<noteq> None)"
  by (simp add: validateAndPass_def)

theorem validateAndPass_gate_witness:
  "passed (validateAndPass
      \<lparr>file_name = ''a.mp4'', file_type = ''video/mp4'', file_size = 5368709120, file_data = []\<rparr>
      \<lparr>upload_error = Some ''old'', passed = []\<rparr>)
     = [\<lparr>file_name = ''a.mp4'', file_type = ''video/mp4'', file_size = 5368709120, file_data = []\<rparr>]
   \<and> passed (validateAndPass
      \<lparr>file_name = ''a.mp4'', file_type = ''video/mp4'', file_size = 5368709121, file_data = []\<rparr>
      \<lparr>upload_error = None, passed = []\<rparr>) = []
   \<and> upload_error (validateAndPass
      \<lparr>file_name = ''a.mp4'', file_type = ''video/mp4'', file_size = 5368709121, file_data = []\<rparr>
      \<lparr>upload_error = None, passed = []\<rparr>) \<noteq> None
   \<and> passed (validateAndPass
      \<lparr>file_name = ''a.txt'', file_type = ''text/plain'', file_size = 3, file_data = []\<rparr>
      \<lparr>upload_error = None, passed = []\<rparr>) = []"
  using
    validateAndPass_gate [of
      "\<lparr>file_name = ''a.mp4'', file_type = ''video/mp4'', file_size = 5368709120, file_data = []\<rparr>"
      "\<lparr>upload_error = Some ''old'', passed = []\<rparr>"]
    validateAndPass_gate [of
      "\<lparr>file_name = ''a.mp4'', file_type = ''video/mp4'', file_size = 5368709121, file_data = []\<rparr>"
      "\<lparr>upload_error = None, passed = []\<rparr>"]
    validateAndPass_gate [of
      "\<lparr>file_name = ''a.txt'', file_type = ''text/plain'', file_size = 3, file_data = []\<rparr>"
      "\<lparr>upload_error = None, passed = []\<rparr>"]
  by (simp add: startsWith_def)

section \<open>The segment duration is at least one\<close>

lemma onChange_ge_1: "1 \<le> onChange v"
  by (simp add: onChange_def)

lemma onChange_max: "onChange v = max 1 (case parseInt v of None \<Rightarrow> 1 | Some n \<Rightarrow> n)"
  by (simp add: onChange_def split: option.splits)

lemma onChange_examples:
  "map onChange [''abc'', ''0'', ''-5'', ''45'', ''0.5'', '''', ''1e3''] = [1, 1, 1, 45, 1, 1, 1]"
  by (simp add: onChange_def parseInt_def startsWith_def is_space_def is_digit_def
        digit_of_def digits_value_def Let_def)

lemma handle_inv: "dur_inv a \<Longrightarrow> dur_inv (handle env a ev)"
  by (cases ev)
     (auto simp: dur_inv_def handle_def handleSplit_def handleReset_def Let_def onChange_ge_1
           split: option.splits prod.splits sum.splits)

lemma run_inv: "dur_inv a \<Longrightarrow> dur_inv (run env a evs)"
  unfolding run_def by (induction evs arbitrary: a) (auto intro: handle_inv)

lemma init_inv: "dur_inv (app_init env w)"
  by (simp add: dur_inv_def app_init_def split: prod.splits)

text \<open>
  C9. The input handler maps every entered text to the greater of 1 and the integer
  parsed from it (1 when there is none), the initial value is 30, and so after any
  sequence of user actions the setting is at least 1 and every call of \<^verbatim>\<open>splitVideo\<close> the
  application made had a duration of at least 1.
\<close>

theorem duration_at_least_one:
  "1 \<le> onChange v
   \<and> onChange v = max 1 (case parseInt v of None \<Rightarrow> 1 | Some n \<Rightarrow> n)
   \<and> splitDuration (app_init env w) = 30
   \<and> 1 \<le> splitDuration (run env (app_init env w) evs)
   \<and> list_all (\<lambda>(f, d). 1 \<le> d) (split_calls (run env (app_init env w) evs))"
  using run_inv [OF init_inv, of env env w evs]
  by (simp add: dur_inv_def onChange_ge_1 onChange_max app_init_def split: prod.splits)

section \<open>Frame rules\<close>

lemma frameI: "(\<And>w. g (snd (m w)) = g w) \<Longrightarrow> frame g m"
  by (simp add: frame_def)

lemma frameD: "frame g m \<Longrightarrow> m w = (r, w') \<Longrightarrow> g w' = g w"
  by (auto simp: frame_def dest: spec [of _ w])

lemma frame_returnE: "frame g (returnE x)"
  by (simp add: frame_def returnE_def)

lemma frame_throwE: "frame g (throwE e)"
  by (simp add: frame_def throwE_def)

lemma frame_bindE: "frame g m \<Longrightarrow> (\<And>x. frame g (f x)) \<Longrightarrow> frame g (bindE m f)"
  unfolding frame_def bindE_def
proof (intro allI)
  fix w
  assume m: "\<forall>w. g (snd (m w)) = g w" and f: "\<And>x. \<forall>w. g (snd (f x w)) = g w"
  obtain r w' where mw: "m w = (r, w')" by (cases "m w")
  from m have g: "g w' = g w" using mw by (metis snd_conv)
  show "g (snd (case m w of (Inl e, w') \<Rightarrow> (Inl e, w') | (Inr x, w') \<Rightarrow> f x w')) = g w"
    using mw g f by (cases r) simp_all
qed

lemma frame_thenE: "frame g m \<Longrightarrow> frame g k \<Longrightarrow> frame g (thenE m k)"
  by (simp add: thenE_def frame_bindE)

lemma frame_catchE: "frame g m \<Longrightarrow> (\<And>e w. g (h e w) = g w) \<Longrightarrow> frame g (catchE m h)"
  unfolding frame_def catchE_def
proof (intro allI)
  fix w
  assume m: "\<forall>w. g (snd (m w)) = g w" and h: "\<And>e w. g (h e w) = g w"
  obtain r w' where mw: "m w = (r, w')" by (cases "m w")
  from m have g: "g w' = g w" using mw by (metis snd_conv)
  show "g (snd (case m w of (Inl e, w') \<Rightarrow> (Inr (), h e w') | (Inr x, w') \<Rightarrow> (Inr x, w'))) = g w"
    using mw g h by (cases r) simp_all
qed

lemma frame_if: "frame g a \<Longrightarrow> frame g b \<Longrightarrow> frame g (if c then a else b)"
  by simp

lemma frame_logE: "(\<And>w f. g (w\<lparr>logs := f\<rparr>) = g w) \<Longrightarrow> frame g (logE env t m)"
  by (simp add: frame_def logE_def log_def)

lemma frame_onProgress: "(\<And>w f. g (w\<lparr>progress := f\<rparr>) = g w) \<Longrightarrow> frame g (onProgress p)"
  by (simp add: frame_def onProgress_def)

lemma foldl_log:
  "(\<And>w f. g (w\<lparr>logs := f\<rparr>) = g w) \<Longrightarrow> g (foldl (\<lambda>v m. log env t m v) w ms) = g w"
  by (induction ms arbitrary: w) (simp_all add: log_def)

lemma frame_perform:
  assumes "\<And>w f. g (w\<lparr>logs := f\<rparr>) = g w" and "\<And>w f. g (w\<lparr>calls := f\<rparr>) = g w"
  shows "frame g (perform env c)"
  by (rule frameI) (simp add: perform_def Let_def foldl_log [of g] assms split: option.splits)

lemma frame_engineOp:
  assumes "\<And>w f. g (w\<lparr>logs := f\<rparr>) = g w" and "\<And>w f. g (w\<lparr>calls := f\<rparr>) = g w"
    and "\<And>w f. g (w\<lparr>memfs := f\<rparr>) = g w"
  shows "frame g (engineOp env c)"
proof (rule frameI)
  fix w
  obtain r w' where p: "perform env c w = (r, w')" by (cases "perform env c w")
  have "g w' = g w" using frameD [OF frame_perform [of g env c] p] assms by simp
  then show "g (snd (engineOp env c w)) = g w"
    by (simp add: engineOp_def Let_def p assms)
qed

lemma frame_listDir:
  assumes "\<And>w f. g (w\<lparr>logs := f\<rparr>) = g w" and "\<And>w f. g (w\<lparr>calls := f\<rparr>) = g w"
    and "\<And>w f. g (w\<lparr>listings := f\<rparr>) = g w"
  shows "frame g (listDir env path)"
  unfolding listDir_def
  by (rule frame_thenE [OF frame_perform]) (simp_all add: assms frame_def)

lemma frame_readFile:
  assumes "\<And>w f. g (w\<lparr>logs := f\<rparr>) = g w" and "\<And>w f. g (w\<lparr>calls := f\<rparr>) = g w"
  shows "frame g (readFile env n)"
  unfolding readFile_def
  by (rule frame_thenE [OF frame_perform]) (simp_all add: assms frame_def split: option.splits)

lemma frame_deleteFile:
  assumes "\<And>w f. g (w\<lparr>logs := f\<rparr>) = g w" and "\<And>w f. g (w\<lparr>calls := f\<rparr>) = g w"
    and "\<And>w f. g (w\<lparr>memfs := f\<rparr>) = g w"
  shows "frame g (deleteFile env n)"
  unfolding deleteFile_def
  by (rule frame_thenE [OF frame_perform]) (simp_all add: assms frame_def)

lemma frame_extractOutputs:
  assumes "\<And>w f. g (w\<lparr>logs := f\<rparr>) = g w" and "\<And>w f. g (w\<lparr>calls := f\<rparr>) = g w"
    and "\<And>w f. g (w\<lparr>memfs := f\<rparr>) = g w"
  shows "frame g (extractOutputs env dir files)"
proof (induction dir arbitrary: files)
  case Nil
  show ?case by (simp add: frame_returnE)
next
  case (Cons f dir)
  show ?case
    by (simp add: Cons.IH frame_bindE frame_thenE frame_readFile frame_deleteFile assms)
qed

lemma frame_unmountAndDelete:
  assumes "\<And>w f. g (w\<lparr>logs := f\<rparr>) = g w" and "\<And>w f. g (w\<lparr>calls := f\<rparr>) = g w"
    and "\<And>w f. g (w\<lparr>memfs := f\<rparr>) = g w"
  shows "frame g (unmountAndDelete env)"
  unfolding unmountAndDelete_def
  by (intro frame_thenE frame_engineOp assms)

text \<open>The \<^verbatim>\<open>loaded\<close> flag is written by \<^verbatim>\<open>load\<close> only.\<close>

lemma frame_loaded_split_body: "frame loaded (split_body env safe d)"
  unfolding split_body_def
  by (intro frame_thenE frame_bindE frame_catchE frame_logE frame_onProgress frame_engineOp
        frame_listDir frame_extractOutputs frame_unmountAndDelete frame_returnE)
     (simp_all add: warn_def)

lemma loaded_on_split_error: "loaded (on_split_error env msg w) = loaded w"
proof -
  have "frame loaded (catchE (unmountAndDelete env) (\<lambda>e v. v))"
    by (intro frame_catchE frame_unmountAndDelete) simp_all
  then show ?thesis
    by (simp add: on_split_error_def log_def frame_def)
qed

text \<open>
  C10. \<^verbatim>\<open>splitVideo\<close> on a loaded session leaves the session loaded, whether it returns
  or throws.
\<close>

theorem splitVideo_keeps_loaded:
  "loaded w \<Longrightarrow> loaded (snd (splitVideo env file segmentDuration w))"
proof -
  assume l: "loaded w"
  obtain r w2 where b: "split_body env (safeFile file) segmentDuration w = (r, w2)"
    by (cases "split_body env (safeFile file) segmentDuration w")
  have "loaded w2" using frameD [OF frame_loaded_split_body b] l by simp
  then show ?thesis
    using l b by (cases r) (simp_all add: splitVideo_def loaded_on_split_error)
qed

theorem splitVideo_keeps_loaded_witness:
  "loaded loaded_world \<and> loaded (snd (splitVideo good_env mkv_file 30 loaded_world))"
  using splitVideo_keeps_loaded [of loaded_world good_env mkv_file 30]
  by (simp add: loaded_world_def fresh_world_def)

section \<open>External calls\<close>

lemmas foldl_log_calls = foldl_log [of calls, simplified]
lemmas foldl_log_loaded = foldl_log [of loaded, simplified]
lemmas foldl_log_memfs = foldl_log [of memfs, simplified]
lemmas foldl_log_progress = foldl_log [of progress, simplified]
lemmas foldl_log_listings = foldl_log [of listings, simplified]

lemma perform_eq:
  "perform env c w =
     (case fault env (calls w) c of Some m \<Rightarrow> Inl m | None \<Rightarrow> Inr (), performed env c w)"
  by (simp add: perform_def performed_def Let_def split: option.splits)

lemma performed_simps:
  "calls (performed env c w) = calls w @ [c]"
  "loaded (performed env c w) = loaded w"
  "memfs (performed env c w) = memfs w"
  "progress (performed env c w) = progress w"
  "listings (performed env c w) = listings w"
  by (simp_all add: performed_def foldl_log_calls foldl_log_loaded foldl_log_memfs
        foldl_log_progress foldl_log_listings)

lemma engineOp_eq:
  "engineOp env c w =
     (case fault env (calls w) c of Some m \<Rightarrow> Inl m | None \<Rightarrow> Inr (),
      (performed env c w)\<lparr>memfs := effect env (calls w) c (memfs w)\<rparr>)"
  by (simp add: engineOp_def perform_eq performed_simps Let_def)

lemma log_simps:
  "calls (log env t m w) = calls w"
  "loaded (log env t m w) = loaded w"
  "memfs (log env t m w) = memfs w"
  "progress (log env t m w) = progress w"
  "listings (log env t m w) = listings w"
  by (simp_all add: log_def)

lemma fetchWorker_eq:
  "fetchWorker env w =
     (case fault env (calls w) (Fetch (baseURL @ ''/worker.js'')) of
        Some m \<Rightarrow> (Inl m, performed env (Fetch (baseURL @ ''/worker.js'')) w)
      | None \<Rightarrow>
          (case response env (calls w) (baseURL @ ''/worker.js'') of (ok, statusText, body) \<Rightarrow>
             if \<not> ok
             then (Inl (''Failed to fetch worker: '' @ statusText),
                   performed env (Fetch (baseURL @ ''/worker.js'')) w)
             else (case fault env (calls w @ [Fetch (baseURL @ ''/worker.js'')]) ResponseText of
                     Some m \<Rightarrow> Inl m | None \<Rightarrow> Inr body,
                   performed env ResponseText (performed env (Fetch (baseURL @ ''/worker.js'')) w))))"
  by (simp add: fetchWorker_def thenE_def bindE_def returnE_def throwE_def perform_eq
        performed_simps Let_def split: option.splits prod.splits)

section \<open>Rules for triples\<close>

lemma tripleI:
  "(\<And>w. P w \<Longrightarrow> (case m w of (Inr x, w') \<Rightarrow> Q x w' | (Inl e, w') \<Rightarrow> E e w')) \<Longrightarrow> triple P m Q E"
  by (simp add: triple_def)

lemma triple_ok: "triple P m Q E \<Longrightarrow> P w \<Longrightarrow> m w = (Inr x, w') \<Longrightarrow> Q x w'"
  by (auto simp: triple_def dest!: spec [of _ w])

lemma triple_err: "triple P m Q E \<Longrightarrow> P w \<Longrightarrow> m w = (Inl e, w') \<Longrightarrow> E e w'"
  by (auto simp: triple_def dest!: spec [of _ w])

lemma triple_bindE:
  assumes m: "triple P m R E" and f: "\<And>x. triple (R x) (f x) Q E"
  shows "triple P (bindE m f) Q E"
proof (rule tripleI)
  fix w assume p: "P w"
  obtain r w1 where mw: "m w = (r, w1)" by (cases "m w")
  show "case bindE m f w of (Inr x, w') \<Rightarrow> Q x w' | (Inl e, w') \<Rightarrow> E e w'"
  proof (cases r)
    case (Inl e)
    then show ?thesis using triple_err [OF m p] mw by (simp add: bindE_def)
  next
    case (Inr x)
    then have "R x w1" using triple_ok [OF m p] mw by simp
    then show ?thesis using f [of x] Inr mw by (simp add: bindE_def triple_def)
  qed
qed

lemma triple_thenE:
  "triple P m (\<lambda>u. R) E \<Longrightarrow> triple R k Q E \<Longrightarrow> triple P (thenE m k) Q E"
  unfolding thenE_def by (rule triple_bindE)

lemma triple_returnE: "(\<And>w. P w \<Longrightarrow> Q x w) \<Longrightarrow> triple P (returnE x) Q E"
  by (simp add: triple_def returnE_def)

lemma triple_conseq:
  assumes "triple P' m Q' E'" and "\<And>w. P w \<Longrightarrow> P' w" and "\<And>x w. Q' x w \<Longrightarrow> Q x w"
    and "\<And>e w. E' e w \<Longrightarrow> E e w"
  shows "triple P m Q E"
proof (rule tripleI)
  fix w assume "P w"
  then have p: "P' w" by (rule assms(2))
  obtain r w1 where mw: "m w = (r, w1)" by (cases "m w")
  show "case m w of (Inr x, w') \<Rightarrow> Q x w' | (Inl e, w') \<Rightarrow> E e w'"
    using triple_ok [OF assms(1) p] triple_err [OF assms(1) p] mw assms(3,4)
    by (cases r) auto
qed

lemma triple_frame: "frame g m \<Longrightarrow> triple (\<lambda>w. g w = v) m (\<lambda>x w. g w = v) (\<lambda>e w. g w = v)"
  by (rule tripleI) (auto simp: frame_def split: prod.splits sum.splits dest!: frameD [rotated, of m _ _ _ g] intro: frameI)

lemma triple_perform:
  assumes "\<And>m. fault env h c = Some m \<Longrightarrow> E m (performed env c w)"
    and "fault env h c = None \<Longrightarrow> Q () (performed env c w)"
    and "calls w = h"
  shows "case perform env c w of (Inr x, w') \<Rightarrow> Q x w' | (Inl e, w') \<Rightarrow> E e w'"
  using assms by (cases "fault env h c") (simp_all add: perform_eq)

lemma St_performed: "St h l w \<Longrightarrow> St (h @ [c]) l (performed env c w)"
  by (simp add: St_def performed_simps)

lemma St_perform:
  assumes "\<And>m w. St (h @ [c]) l w \<Longrightarrow> fault env h c = Some m \<Longrightarrow> E m w"
  shows "triple (St h l) (perform env c)
           (\<lambda>u w. fault env h c = None \<and> St (h @ [c]) l w) E"
proof (rule tripleI)
  fix w assume s: "St h l w"
  then have c: "calls w = h" by (simp add: St_def)
  show "case perform env c w of (Inr x, w') \<Rightarrow> fault env h c = None \<and> St (h @ [c]) l w'
        | (Inl e, w') \<Rightarrow> E e w'"
    by (rule triple_perform [OF _ _ c]) (simp_all add: assms St_performed [OF s])
qed

lemma St_engineOp:
  assumes "\<And>m w. St (h @ [c]) l w \<Longrightarrow> fault env h c = Some m \<Longrightarrow> E m w"
  shows "triple (St h l) (engineOp env c)
           (\<lambda>u w. fault env h c = None \<and> St (h @ [c]) l w) E"
proof (rule tripleI)
  fix w assume s: "St h l w"
  then have c: "calls w = h" by (simp add: St_def)
  have t: "St (h @ [c]) l ((performed env c w)\<lparr>memfs := fs\<rparr>)" for fs
    using St_performed [OF s, of c env] by (simp add: St_def)
  show "case engineOp env c w of (Inr x, w') \<Rightarrow> fault env h c = None \<and> St (h @ [c]) l w'
        | (Inl e, w') \<Rightarrow> E e w'"
    using assms t c by (cases "fault env h c") (simp_all add: engineOp_eq)
qed

lemma triple_assume:
  "(A \<Longrightarrow> triple P m Q E) \<Longrightarrow> triple (\<lambda>w. A \<and> P w) m Q E"
  by (auto simp: triple_def)

lemma St_perform_then:
  assumes "\<And>m w. St (h @ [c]) l w \<Longrightarrow> fault env h c = Some m \<Longrightarrow> E m w"
    and "fault env h c = None \<Longrightarrow> triple (St (h @ [c]) l) k Q E"
  shows "triple (St h l) (thenE (perform env c) k) Q E"
  by (rule triple_thenE [OF St_perform triple_assume]) (fact assms)+

lemma St_engineOp_then:
  assumes "\<And>m w. St (h @ [c]) l w \<Longrightarrow> fault env h c = Some m \<Longrightarrow> E m w"
    and "fault env h c = None \<Longrightarrow> triple (St (h @ [c]) l) k Q E"
  shows "triple (St h l) (thenE (engineOp env c) k) Q E"
  by (rule triple_thenE [OF St_engineOp triple_assume]) (fact assms)+

lemma St_logE: "triple (St h l) (logE env t m) (\<lambda>u. St h l) E"
  by (simp add: triple_def logE_def St_def log_simps)

lemma St_logE_then:
  "triple (St h l) k Q E \<Longrightarrow> triple (St h l) (thenE (logE env t m) k) Q E"
  by (rule triple_thenE [OF St_logE])

lemma St_if_logE_then:
  "triple (St h l) k Q E \<Longrightarrow>
   triple (St h l) (thenE (if b then logE env t m else returnE ()) k) Q E"
proof (rule triple_thenE [where R = "St h l"])
  show "triple (St h l) (if b then logE env t m else returnE ()) (\<lambda>u. St h l) E"
    by (cases b) (simp_all add: St_logE triple_returnE)
qed

lemma St_markLoaded_then:
  "triple (St h True) k Q E \<Longrightarrow> triple (St h l) (thenE markLoaded k) Q E"
  by (rule triple_thenE [where R = "St h True"])
     (simp_all add: triple_def markLoaded_def St_def)

lemma St_createObjectURL_bind:
  assumes "\<And>m w. St (h @ [CreateObjectURL content mime]) l w \<Longrightarrow>
             fault env h (CreateObjectURL content mime) = Some m \<Longrightarrow> E m w"
    and "fault env h (CreateObjectURL content mime) = None \<Longrightarrow>
           triple (St (h @ [CreateObjectURL content mime]) l)
             (f (blob_url env h (CreateObjectURL content mime))) Q E"
  shows "triple (St h l) (bindE (createObjectURL env content mime) f) Q E"
proof (rule triple_bindE [where R = "\<lambda>x w. x = blob_url env h (CreateObjectURL content mime)
      \<and> fault env h (CreateObjectURL content mime) = None
      \<and> St (h @ [CreateObjectURL content mime]) l w"])
  show "triple (St h l) (createObjectURL env content mime)
     (\<lambda>x w. x = blob_url env h (CreateObjectURL content mime) \<and>
        fault env h (CreateObjectURL content mime) = None \<and>
        St (h @ [CreateObjectURL content mime]) l w) E"
  proof (rule tripleI)
    fix w assume s: "St h l w"
    then have c: "calls w = h" by (simp add: St_def)
    show "case createObjectURL env content mime w of
            (Inr x, w') \<Rightarrow> x = blob_url env h (CreateObjectURL content mime) \<and>
               fault env h (CreateObjectURL content mime) = None \<and>
               St (h @ [CreateObjectURL content mime]) l w'
          | (Inl e, w') \<Rightarrow> E e w'"
      using assms(1) St_performed [OF s, of "CreateObjectURL content mime" env] c
      by (cases "fault env h (CreateObjectURL content mime)")
         (simp_all add: createObjectURL_def thenE_def bindE_def returnE_def perform_eq Let_def)
  qed
next
  fix x
  show "triple (\<lambda>w. x = blob_url env h (CreateObjectURL content mime) \<and>
          fault env h (CreateObjectURL content mime) = None \<and>
          St (h @ [CreateObjectURL content mime]) l w) (f x) Q E"
    using assms(2) by (auto simp: triple_def)
qed

lemma St_toBlobURL_bind:
  assumes "\<And>m w. St (h @ [ToBlobURL url mime]) l w \<Longrightarrow>
             fault env h (ToBlobURL url mime) = Some m \<Longrightarrow> E m w"
    and "fault env h (ToBlobURL url mime) = None \<Longrightarrow>
           triple (St (h @ [ToBlobURL url mime]) l)
             (f (blob_url env h (ToBlobURL url mime))) Q E"
  shows "triple (St h l) (bindE (toBlobURL env url mime) f) Q E"
proof (rule triple_bindE [where R = "\<lambda>x w. x = blob_url env h (ToBlobURL url mime)
      \<and> fault env h (ToBlobURL url mime) = None \<and> St (h @ [ToBlobURL url mime]) l w"])
  show "triple (St h l) (toBlobURL env url mime)
     (\<lambda>x w. x = blob_url env h (ToBlobURL url mime) \<and>
        fault env h (ToBlobURL url mime) = None \<and> St (h @ [ToBlobURL url mime]) l w) E"
  proof (rule tripleI)
    fix w assume s: "St h l w"
    then have c: "calls w = h" by (simp add: St_def)
    show "case toBlobURL env url mime w of
            (Inr x, w') \<Rightarrow> x = blob_url env h (ToBlobURL url mime) \<and>
               fault env h (ToBlobURL url mime) = None \<and> St (h @ [ToBlobURL url mime]) l w'
          | (Inl e, w') \<Rightarrow> E e w'"
      using assms(1) St_performed [OF s, of "ToBlobURL url mime" env] c
      by (cases "fault env h (ToBlobURL url mime)")
         (simp_all add: toBlobURL_def thenE_def bindE_def returnE_def perform_eq Let_def)
  qed
next
  fix x
  show "triple (\<lambda>w. x = blob_url env h (ToBlobURL url mime) \<and>
          fault env h (ToBlobURL url mime) = None \<and> St (h @ [ToBlobURL url mime]) l w)
        (f x) Q E"
    using assms(2) by (auto simp: triple_def)
qed

lemma St_fetchWorker_bind:
  assumes "\<And>m w. St (h @ [Fetch (baseURL @ ''/worker.js'')]) l w \<Longrightarrow>
             step_failure env h (Fetch (baseURL @ ''/worker.js'')) = Some m \<Longrightarrow> E m w"
    and "\<And>m w. St (h @ [Fetch (baseURL @ ''/worker.js''), ResponseText]) l w \<Longrightarrow>
             step_failure env h (Fetch (baseURL @ ''/worker.js'')) = None \<Longrightarrow>
             fault env (h @ [Fetch (baseURL @ ''/worker.js'')]) ResponseText = Some m \<Longrightarrow> E m w"
    and "step_failure env h (Fetch (baseURL @ ''/worker.js'')) = None \<Longrightarrow>
         fault env (h @ [Fetch (baseURL @ ''/worker.js'')]) ResponseText = None \<Longrightarrow>
           triple (St (h @ [Fetch (baseURL @ ''/worker.js''), ResponseText]) l)
             (f (snd (snd (response env h (baseURL @ ''/worker.js''))))) Q E"
  shows "triple (St h l) (bindE (fetchWorker env) f) Q E"
proof (rule triple_bindE [where R = "\<lambda>x w. x = snd (snd (response env h (baseURL @ ''/worker.js'')))
      \<and> step_failure env h (Fetch (baseURL @ ''/worker.js'')) = None
      \<and> fault env (h @ [Fetch (baseURL @ ''/worker.js'')]) ResponseText = None
      \<and> St (h @ [Fetch (baseURL @ ''/worker.js''), ResponseText]) l w"])
  let ?c = "Fetch (baseURL @ ''/worker.js'')"
  show "triple (St h l) (fetchWorker env)
     (\<lambda>x w. x = snd (snd (response env h (baseURL @ ''/worker.js''))) \<and>
        step_failure env h ?c = None \<and> fault env (h @ [?c]) ResponseText = None \<and>
        St (h @ [?c, ResponseText]) l w) E"
  proof (rule tripleI)
    fix w assume s: "St h l w"
    then have c: "calls w = h" by (simp add: St_def)
    obtain ok st body where r: "response env h (baseURL @ ''/worker.js'') = (ok, st, body)"
      by (cases "response env h (baseURL @ ''/worker.js'')")
    have s1: "St (h @ [?c]) l (performed env ?c w)" by (rule St_performed [OF s])
    have s2: "St (h @ [?c, ResponseText]) l (performed env ResponseText (performed env ?c w))"
      using St_performed [OF s1, of ResponseText env] by simp
    show "case fetchWorker env w of
            (Inr x, w') \<Rightarrow> x = snd (snd (response env h (baseURL @ ''/worker.js''))) \<and>
               step_failure env h ?c = None \<and> fault env (h @ [?c]) ResponseText = None \<and>
               St (h @ [?c, ResponseText]) l w'
          | (Inl e, w') \<Rightarrow> E e w'"
    proof (cases "fault env h ?c")
      case (Some m)
      then show ?thesis
        using assms(1) [OF s1, of m] c by (simp add: fetchWorker_eq step_failure_def)
    next
      case None
      show ?thesis
      proof (cases ok)
        case False
        then show ?thesis
          using assms(1) [OF s1, of "''Failed to fetch worker: '' @ st"] c None r
          by (simp add: fetchWorker_eq step_failure_def)
      next
        case True
        then have sf: "step_failure env h ?c = None"
          using None r by (simp add: step_failure_def)
        show ?thesis
        proof (cases "fault env (h @ [?c]) ResponseText")
          case n2: None
          then show ?thesis
            using c None r True sf s2 by (simp add: fetchWorker_eq)
        next
          case (Some m)
          then show ?thesis
            using assms(2) [OF s2 sf, of m] c None r True by (simp add: fetchWorker_eq)
        qed
      qed
    qed
  qed
next
  fix x
  show "triple (\<lambda>w. x = snd (snd (response env h (baseURL @ ''/worker.js''))) \<and>
          step_failure env h (Fetch (baseURL @ ''/worker.js'')) = None \<and>
          fault env (h @ [Fetch (baseURL @ ''/worker.js'')]) ResponseText = None \<and>
          St (h @ [Fetch (baseURL @ ''/worker.js''), ResponseText]) l w) (f x) Q E"
    using assms(3) by (auto simp: triple_def)
qed

lemma step_failure_plain:
  "step_failure env h ResponseText = fault env h ResponseText"
  "step_failure env h (CreateObjectURL a b) = fault env h (CreateObjectURL a b)"
  "step_failure env h (ToBlobURL a b) = fault env h (ToBlobURL a b)"
  "step_failure env h (EngineLoad a b c d) = fault env h (EngineLoad a b c d)"
  by (simp_all add: step_failure_def split: option.splits)

text \<open>
  The body of \<^verbatim>\<open>load\<close>, started with trace \<open>h\<close> on a session that is not loaded: it
  returns with the session loaded and all six calls made if no step fails, and throws
  the message of the first failing step, the session still not loaded, otherwise.
\<close>

lemma load_body_triple:
  "triple (St h False) (load_body env)
     (\<lambda>u w. first_failure env h (bootstrap_calls env h) = None
           \<and> St (h @ bootstrap_calls env h) True w)
     (\<lambda>m w. first_failure env h (bootstrap_calls env h) = Some m \<and> \<not> loaded w)"
  unfolding load_body_def Let_def
  apply (rule St_logE_then)
  apply (rule St_if_logE_then)
  apply (rule St_logE_then)
  apply (rule St_logE_then)
  apply (rule St_fetchWorker_bind)
    subgoal by (simp add: bootstrap_calls_def Let_def St_def)
   subgoal by (simp add: bootstrap_calls_def Let_def St_def step_failure_plain)
  apply (rule St_logE_then)
  apply (rule St_if_logE_then)
  apply (rule St_createObjectURL_bind)
   subgoal by (simp add: bootstrap_calls_def Let_def St_def step_failure_plain)
  apply (rule St_logE_then)
  apply (rule St_toBlobURL_bind)
   subgoal by (simp add: bootstrap_calls_def Let_def St_def step_failure_plain)
  apply (rule St_toBlobURL_bind)
   subgoal by (simp add: bootstrap_calls_def Let_def St_def step_failure_plain)
  apply (rule St_logE_then)
  apply (rule St_engineOp_then)
   subgoal by (simp add: bootstrap_calls_def Let_def St_def step_failure_plain)
  apply (rule St_markLoaded_then)
  apply (rule triple_conseq [OF St_logE [where E = "\<lambda>e w. False"]])
    apply assumption
   subgoal by (simp add: bootstrap_calls_def Let_def St_def step_failure_plain)
  subgoal by simp
  done

lemma load_body_ok:
  assumes "\<not> loaded w" and "load_body env w = (Inr u, w')"
  shows "first_failure env (calls w) (bootstrap_calls env (calls w)) = None"
    and "calls w' = calls w @ bootstrap_calls env (calls w)" and "loaded w'"
  using triple_ok [OF load_body_triple _ assms(2), of "calls w"] assms(1)
  by (simp_all add: St_def)

lemma load_body_err:
  assumes "\<not> loaded w" and "load_body env w = (Inl m, w')"
  shows "first_failure env (calls w) (bootstrap_calls env (calls w)) = Some m" and "\<not> loaded w'"
  using triple_err [OF load_body_triple _ assms(2), of "calls w"] assms(1)
  by (simp_all add: St_def)

lemma load_success:
  assumes "\<not> loaded w"
    and "first_failure env (calls w) (bootstrap_calls env (calls w)) = None"
  shows "fst (load env w) = Inr ()"
proof -
  obtain r w' where b: "load_body env w = (r, w')" by (cases "load_body env w")
  show ?thesis
  proof (cases r)
    case (Inl m)
    then show ?thesis using load_body_err(1) [OF assms(1), of env m w'] b assms(2) by simp
  next
    case (Inr u)
    then show ?thesis using assms(1) b by (simp add: load_def)
  qed
qed



text \<open>
  C3. On a loaded session \<^verbatim>\<open>load\<close> returns at once and changes nothing: no call, no log
  entry. After a \<^verbatim>\<open>load\<close> that succeeded on a session that was not loaded, a second
  \<^verbatim>\<open>load\<close> (whatever the environment then answers) returns at once, so the two calls
  together made the calls of Bootstrap exactly once.
\<close>

theorem load_idempotent:
  "(loaded w \<longrightarrow> load env w = (Inr (), w))
   \<and> (\<not> loaded w \<and> fst (load env w) = Inr () \<longrightarrow>
        load env2 (snd (load env w)) = (Inr (), snd (load env w))
        \<and> calls (snd (load env2 (snd (load env w)))) = calls w @ bootstrap_calls env (calls w))"
proof (intro conjI impI)
  show "load env w = (Inr (), w)" if "loaded w"
    using that by (simp add: load_def)
next
  assume a: "\<not> loaded w \<and> fst (load env w) = Inr ()"
  obtain r w' where b: "load_body env w = (r, w')" by (cases "load_body env w")
  from a b obtain u where r: "r = Inr u" by (cases r) (auto simp: load_def)
  have l: "load env w = (Inr (), w')" using a b r by (simp add: load_def)
  have "loaded w'" and c: "calls w' = calls w @ bootstrap_calls env (calls w)"
    using load_body_ok [of w env u w'] a b r by simp_all
  then have l2: "load env2 w' = (Inr (), w')" by (simp add: load_def)
  show "load env2 (snd (load env w)) = (Inr (), snd (load env w))"
    using l l2 by simp
  show "calls (snd (load env2 (snd (load env w)))) = calls w @ bootstrap_calls env (calls w)"
    using l l2 c by simp
qed

theorem load_idempotent_witness:
  "\<not> loaded fresh_world \<and> fst (load good_env fresh_world) = Inr ()
   \<and> load not_found_env (snd (load good_env fresh_world))
      = (Inr (), snd (load good_env fresh_world))
   \<and> calls (snd (load not_found_env (snd (load good_env fresh_world))))
      = bootstrap_calls good_env []
   \<and> load good_env loaded_world = (Inr (), loaded_world)"
proof -
  have a: "\<not> loaded fresh_world" and c: "calls fresh_world = []" and d: "loaded loaded_world"
    by (simp_all add: fresh_world_def loaded_world_def)
  have "first_failure good_env [] (bootstrap_calls good_env []) = None"
    by (simp add: bootstrap_calls_def Let_def step_failure_def good_env_def)
  then have b: "fst (load good_env fresh_world) = Inr ()"
    using load_success [OF a, of good_env] c by simp
  have e: "load not_found_env (snd (load good_env fresh_world))
             = (Inr (), snd (load good_env fresh_world))"
    and f: "calls (snd (load not_found_env (snd (load good_env fresh_world))))
             = bootstrap_calls good_env []"
    using load_idempotent [of fresh_world good_env not_found_env] a b c by auto
  have g: "load good_env loaded_world = (Inr (), loaded_world)"
    using load_idempotent [of loaded_world good_env good_env] d by simp
  show ?thesis using a b e f g by (intro conjI)
qed

section \<open>Progress reports\<close>

lemma frame_then_step:
  assumes "frame g m" and "\<And>e w. g w = v \<Longrightarrow> E e w" and "triple (\<lambda>w. g w = v) k Q E"
  shows "triple (\<lambda>w. g w = v) (thenE m k) Q E"
  by (rule triple_thenE [OF triple_conseq [OF triple_frame [OF assms(1), of v]] assms(3)])
     (simp_all add: assms(2))

lemma frame_bind_step:
  assumes "frame g m" and "\<And>e w. g w = v \<Longrightarrow> E e w"
    and "\<And>x. triple (\<lambda>w. g w = v) (f x) Q E"
  shows "triple (\<lambda>w. g w = v) (bindE m f) Q E"
  by (rule triple_bindE [OF triple_conseq [OF triple_frame [OF assms(1), of v]] assms(3)])
     (simp_all add: assms(2))

lemma progress_step:
  assumes "triple (\<lambda>w. progress w = v @ [p]) k Q E"
  shows "triple (\<lambda>w. progress w = v) (thenE (onProgress p) k) Q E"
  by (rule triple_thenE [OF _ assms]) (simp add: triple_def onProgress_def)

lemma frame_progress_cleanup: "frame progress (catchE (unmountAndDelete env) warn)"
  by (intro frame_catchE frame_unmountAndDelete) (simp_all add: warn_def)

lemma split_body_progress:
  "triple (\<lambda>w. progress w = p) (split_body env safe d)
     (\<lambda>files w. progress w = p @ [10, 80, 100])
     (\<lambda>e w. progress w = p \<or> progress w = p @ [10] \<or> progress w = p @ [10, 80])"
  unfolding split_body_def
  apply (rule frame_then_step [where g = progress], (rule frame_logE, simp), simp)
  apply (rule frame_then_step [where g = progress], (rule frame_engineOp; simp), simp)
  apply (rule frame_then_step [where g = progress], (rule frame_engineOp; simp), simp)
  apply (rule frame_then_step [where g = progress], (rule frame_logE, simp), simp)
  apply (rule progress_step)
  apply (rule frame_then_step [where g = progress], (rule frame_engineOp; simp), simp)
  apply (rule progress_step)
  apply (rule frame_then_step [where g = progress], (rule frame_logE, simp), simp)
  apply (rule frame_then_step [where g = progress], rule frame_progress_cleanup, simp)
  apply (rule frame_bind_step [where g = progress], (rule frame_listDir; simp), simp)
  apply (rule frame_bind_step [where g = progress], (rule frame_extractOutputs; simp), simp)
  apply (rule progress_step)
  apply (rule triple_returnE)
  apply simp
  done

lemma progress_on_split_error: "progress (on_split_error env msg w) = progress w"
proof -
  have "frame progress (catchE (unmountAndDelete env) (\<lambda>e v. v))"
    by (intro frame_catchE frame_unmountAndDelete) simp_all
  then show ?thesis
    by (simp add: on_split_error_def log_def frame_def)
qed

lemma frame_createObjectURL:
  assumes "\<And>w f. g (w\<lparr>logs := f\<rparr>) = g w" and "\<And>w f. g (w\<lparr>calls := f\<rparr>) = g w"
  shows "frame g (createObjectURL env content mime)"
proof (rule frameI)
  fix w :: world
  have "frame g (thenE (perform env (CreateObjectURL content mime))
          (returnE (blob_url env (calls w) (CreateObjectURL content mime))))"
    by (intro frame_thenE frame_perform frame_returnE assms)
  then show "g (snd (createObjectURL env content mime w)) = g w"
    by (simp add: createObjectURL_def Let_def frame_def)
qed

lemma frame_toBlobURL:
  assumes "\<And>w f. g (w\<lparr>logs := f\<rparr>) = g w" and "\<And>w f. g (w\<lparr>calls := f\<rparr>) = g w"
  shows "frame g (toBlobURL env url mime)"
proof (rule frameI)
  fix w :: world
  have "frame g (thenE (perform env (ToBlobURL url mime))
          (returnE (blob_url env (calls w) (ToBlobURL url mime))))"
    by (intro frame_thenE frame_perform frame_returnE assms)
  then show "g (snd (toBlobURL env url mime w)) = g w"
    by (simp add: toBlobURL_def Let_def frame_def)
qed

lemma frame_fetchWorker:
  assumes "\<And>w f. g (w\<lparr>logs := f\<rparr>) = g w" and "\<And>w f. g (w\<lparr>calls := f\<rparr>) = g w"
  shows "frame g (fetchWorker env)"
proof (rule frameI)
  fix w :: world
  have p: "g (performed env c v) = g v" for c v
    using frame_perform [of g env c, OF assms] by (simp add: frame_def perform_eq)
  show "g (snd (fetchWorker env w)) = g w"
    by (simp add: fetchWorker_eq p split: option.splits prod.splits)
qed

lemma frame_markLoaded: "(\<And>w f. g (w\<lparr>loaded := f\<rparr>) = g w) \<Longrightarrow> frame g markLoaded"
  by (simp add: frame_def markLoaded_def)

lemma frame_load_body:
  assumes "\<And>w f. g (w\<lparr>logs := f\<rparr>) = g w" and "\<And>w f. g (w\<lparr>calls := f\<rparr>) = g w"
    and "\<And>w f. g (w\<lparr>memfs := f\<rparr>) = g w" and "\<And>w f. g (w\<lparr>loaded := f\<rparr>) = g w"
  shows "frame g (load_body env)"
  unfolding load_body_def Let_def
  by (intro frame_thenE frame_bindE frame_if frame_logE frame_returnE frame_fetchWorker
        frame_createObjectURL frame_toBlobURL frame_engineOp frame_markLoaded assms)

lemma progress_load: "progress (snd (load env w)) = progress w"
proof -
  have "frame progress (load_body env)" by (rule frame_load_body) simp_all
  then show ?thesis
    by (auto simp: load_def log_def frame_def split: prod.splits sum.splits
          dest!: spec [of _ w])
qed

lemma splitVideo_eq:
  "splitVideo env file segmentDuration w =
     (case load env w of
        (Inl e, w1) \<Rightarrow> (Inl e, w1)
      | (Inr u, w1) \<Rightarrow>
          (case split_body env (safeFile file) segmentDuration w1 of
             (Inr files, w2) \<Rightarrow> (Inr files, w2)
           | (Inl msg, w2) \<Rightarrow> (Inl (SegmentError msg), on_split_error env msg w2)))"
  by (simp add: splitVideo_def load_def)

lemma splitVideo_progress:
  "case fst (splitVideo env file d w) of
     Inr files \<Rightarrow> progress (snd (splitVideo env file d w)) = progress w @ [10, 80, 100]
   | Inl e \<Rightarrow> progress (snd (splitVideo env file d w)) = progress w
              \<or> progress (snd (splitVideo env file d w)) = progress w @ [10]
              \<or> progress (snd (splitVideo env file d w)) = progress w @ [10, 80]"
proof -
  obtain r w1 where l: "load env w = (r, w1)" by (cases "load env w")
  have p1: "progress w1 = progress w" using progress_load [of env w] l by simp
  show ?thesis
  proof (cases r)
    case (Inl e)
    then show ?thesis using l p1 by (simp add: splitVideo_eq)
  next
    case (Inr u)
    obtain r2 w2 where b: "split_body env (safeFile file) d w1 = (r2, w2)"
      by (cases "split_body env (safeFile file) d w1")
    show ?thesis
    proof (cases r2)
      case (Inl msg)
      then show ?thesis
        using triple_err [OF split_body_progress _ b [unfolded Inl], of "progress w"] l p1 Inr b
        by (simp add: splitVideo_eq progress_on_split_error)
    next
      case r: (Inr files)
      then show ?thesis
        using triple_ok [OF split_body_progress _ b [unfolded r], of "progress w"] l p1 Inr b
        by (simp add: splitVideo_eq)
    qed
  qed
qed

text \<open>
  C6. The values that a call of \<^verbatim>\<open>splitVideo\<close> gives to the progress callback are in
  non-decreasing order; if the call returns, the last value is 100; if it throws, 100
  is not among them.
\<close>

theorem progress_reports:
  "\<exists>ps. progress (snd (splitVideo env file d w)) = progress w @ ps \<and> sorted ps
      \<and> (case fst (splitVideo env file d w) of
            Inr files \<Rightarrow> ps \<noteq> [] \<and> last ps = 100
          | Inl e \<Rightarrow> 100 \<notin> set ps)"
proof (cases "fst (splitVideo env file d w)")
  case (Inl e)
  then consider
      (none) "progress (snd (splitVideo env file d w)) = progress w @ []"
    | (ten) "progress (snd (splitVideo env file d w)) = progress w @ [10]"
    | (eighty) "progress (snd (splitVideo env file d w)) = progress w @ [10, 80]"
    using splitVideo_progress [of env "file" d w] by auto
  then show ?thesis
  proof cases
    case none
    then show ?thesis using Inl by (intro exI [of _ "[]"]) simp
  next
    case ten
    then show ?thesis using Inl by (intro exI [of _ "[10]"]) simp
  next
    case eighty
    then show ?thesis using Inl by (intro exI [of _ "[10, 80]"]) simp
  qed
next
  case (Inr files)
  then have "progress (snd (splitVideo env file d w)) = progress w @ [10, 80, 100]"
    using splitVideo_progress [of env "file" d w] by simp
  then show ?thesis using Inr by (intro exI [of _ "[10, 80, 100]"]) simp
qed

section \<open>A failing mount\<close>

lemma split_body_createDir_fails:
  assumes "fault env (calls w) (CreateDir mountDir) = Some msg"
  shows "fst (split_body env safe d w) = Inl msg"
    and "calls (snd (split_body env safe d w)) = calls w @ [CreateDir mountDir]"
  using assms
  by (simp_all add: split_body_def thenE_def bindE_def logE_def engineOp_eq performed_simps
        log_simps)

lemma split_body_mount_fails:
  assumes "fault env (calls w) (CreateDir mountDir) = None"
    and "fault env (calls w @ [CreateDir mountDir]) (Mount ''WORKERFS'' [safe] mountDir) = Some msg"
  shows "fst (split_body env safe d w) = Inl msg"
    and "calls (snd (split_body env safe d w))
           = calls w @ [CreateDir mountDir, Mount ''WORKERFS'' [safe] mountDir]"
  using assms
  by (simp_all add: split_body_def thenE_def bindE_def logE_def engineOp_eq performed_simps
        log_simps)

lemma calls_on_split_error:
  "calls (on_split_error env msg w) = calls w @ [Unmount mountDir]
   \<or> calls (on_split_error env msg w) = calls w @ [Unmount mountDir, DeleteDir mountDir]"
  by (cases "fault env (calls w) (Unmount mountDir)";
      cases "fault env (calls w @ [Unmount mountDir]) (DeleteDir mountDir)")
     (simp_all add: on_split_error_def catchE_def unmountAndDelete_def thenE_def bindE_def
        engineOp_eq performed_simps log_simps)

lemma no_exec_bootstrap: "\<not> list_ex is_exec (bootstrap_calls env h)"
  by (simp add: bootstrap_calls_def Let_def is_exec_def)

lemma calls_load:
  assumes "load env w = (Inr u, w1)"
  shows "calls w1 = calls w \<or> calls w1 = calls w @ bootstrap_calls env (calls w)"
proof (cases "loaded w")
  case True
  then show ?thesis using assms by (simp add: load_def)
next
  case False
  obtain r w' where b: "load_body env w = (r, w')" by (cases "load_body env w")
  from assms False b obtain v where r: "r = Inr v" by (cases r) (auto simp: load_def)
  then have "w1 = w'" using assms False b by (simp add: load_def)
  then show ?thesis using load_body_ok(2) [OF False, of env v w'] b r by simp
qed

text \<open>
  C5. On a session that is loaded, or that the implicit \<^verbatim>\<open>load\<close> has just loaded, if
  creating the mount point or mounting the input throws, \<^verbatim>\<open>splitVideo\<close> throws that same
  error, with its message, after it has tried to unmount; and no call it made is the
  engine's \<^verbatim>\<open>exec\<close>.
\<close>

theorem mount_failure:
  assumes "load env w = (Inr (), w1)"
    and "fault env (calls w1) (CreateDir mountDir) = Some msg
         \<or> (fault env (calls w1) (CreateDir mountDir) = None
            \<and> fault env (calls w1 @ [CreateDir mountDir])
                 (Mount ''WORKERFS'' [safeFile file] mountDir) = Some msg)"
  shows "fst (splitVideo env file d w) = Inl (SegmentError msg)
         \<and> \<not> list_ex is_exec (drop (length (calls w)) (calls (snd (splitVideo env file d w))))
         \<and> list_ex (\<lambda>c. c = Unmount mountDir)
             (drop (length (calls w)) (calls (snd (splitVideo env file d w))))"
proof -
  obtain r w2 where b: "split_body env (safeFile file) d w1 = (r, w2)"
    by (cases "split_body env (safeFile file) d w1")
  have r: "r = Inl msg"
    and c2: "calls w2 = calls w1 @ [CreateDir mountDir]
             \<or> calls w2 = calls w1 @ [CreateDir mountDir, Mount ''WORKERFS'' [safeFile file] mountDir]"
    using assms(2) b split_body_createDir_fails [of env w1 msg "safeFile file" d]
      split_body_mount_fails [of env w1 "safeFile file" msg d]
    by auto
  have s: "splitVideo env file d w = (Inl (SegmentError msg), on_split_error env msg w2)"
    using assms(1) b r by (simp add: splitVideo_eq)
  obtain cs where c1: "calls w1 = calls w @ cs" and n0: "\<not> list_ex is_exec cs"
    using calls_load [OF assms(1)] no_exec_bootstrap [of env "calls w"] by auto
  have "\<not> list_ex is_exec (drop (length (calls w)) (calls (on_split_error env msg w2)))"
    using calls_on_split_error [of env msg w2] c2 c1 n0
    by (auto simp: is_exec_def list_ex_iff)
  moreover have "list_ex (\<lambda>c. c = Unmount mountDir)
      (drop (length (calls w)) (calls (on_split_error env msg w2)))"
    using calls_on_split_error [of env msg w2] c2 c1
    by (auto simp: list_ex_iff)
  ultimately show ?thesis using s by simp
qed

theorem mount_failure_witness:
  "load mount_fails_env loaded_world = (Inr (), loaded_world)
   \<and> fault mount_fails_env (calls loaded_world) (CreateDir mountDir) = None
   \<and> fault mount_fails_env (calls loaded_world @ [CreateDir mountDir])
        (Mount ''WORKERFS'' [safeFile mkv_file] mountDir) = Some ''mount failed''
   \<and> fst (splitVideo mount_fails_env mkv_file 30 loaded_world)
        = Inl (SegmentError ''mount failed'')
   \<and> \<not> list_ex is_exec (drop (length (calls loaded_world))
          (calls (snd (splitVideo mount_fails_env mkv_file 30 loaded_world))))
   \<and> list_ex (\<lambda>c. c = Unmount mountDir) (drop (length (calls loaded_world))
          (calls (snd (splitVideo mount_fails_env mkv_file 30 loaded_world))))"
proof -
  have a: "load mount_fails_env loaded_world = (Inr (), loaded_world)"
    by (simp add: load_def loaded_world_def fresh_world_def)
  have b: "fault mount_fails_env (calls loaded_world) (CreateDir mountDir) = None"
    and c: "fault mount_fails_env (calls loaded_world @ [CreateDir mountDir])
        (Mount ''WORKERFS'' [safeFile mkv_file] mountDir) = Some ''mount failed''"
    by (simp_all add: mount_fails_env_def good_env_def)
  show ?thesis
    using mount_failure [OF a, of "''mount failed''" mkv_file 30] a b c by simp
qed

section \<open>Draining the outputs\<close>

lemma readFile_eq:
  "readFile env n w =
     (case fault env (calls w) (ReadFile n) of
        Some m \<Rightarrow> Inl m
      | None \<Rightarrow> (case find (is_file n) (memfs w) of
                  None \<Rightarrow> Inl fs_error
                | Some f \<Rightarrow> Inr (node_data f)),
      performed env (ReadFile n) w)"
  by (simp add: readFile_def thenE_def bindE_def perform_eq performed_simps
      split: option.splits)

lemma deleteFile_eq:
  "deleteFile env n w =
     (case fault env (calls w) (DeleteFile n) of
        Some m \<Rightarrow> (Inl m, performed env (DeleteFile n) w)
      | None \<Rightarrow>
          if list_ex (is_file n) (memfs w)
          then (Inr (), (performed env (DeleteFile n) w)
                  \<lparr>memfs := filter (\<lambda>f. \<not> is_file n f) (memfs w)\<rparr>)
          else (Inl fs_error, performed env (DeleteFile n) w))"
  by (simp add: deleteFile_def thenE_def bindE_def perform_eq performed_simps
      split: option.splits)

lemma listDir_eq:
  "listDir env path w =
     (case fault env (calls w) (ListDir path) of
        Some m \<Rightarrow> (Inl m, performed env (ListDir path) w)
      | None \<Rightarrow> (Inr (memfs w),
                 (performed env (ListDir path) w)\<lparr>listings := listings w @ [memfs w]\<rparr>))"
  by (simp add: listDir_def thenE_def bindE_def perform_eq performed_simps
      split: option.splits)

lemma bindE_ok:
  assumes "bindE m f w = (Inr r, w')"
  obtains x w1 where "m w = (Inr x, w1)" and "f x w1 = (Inr r, w')"
proof -
  obtain y w1 where mw: "m w = (y, w1)" by (cases "m w")
  show ?thesis
  proof (cases y)
    case (Inl e)
    then show ?thesis using assms mw by (simp add: bindE_def)
  next
    case (Inr x)
    then show ?thesis using assms mw that [of x w1] by (simp add: bindE_def)
  qed
qed

lemma find_skip: "\<forall>x\<in>set xs. \<not> P x \<Longrightarrow> find P (xs @ ys) = find P ys"
  by (induction xs) simp_all

lemma is_output_same_name: "is_output f \<Longrightarrow> is_file (node_name f) g \<Longrightarrow> is_output g"
  by (simp add: is_output_def is_file_def)

text \<open>
  The loop, started on the listing \<open>dir\<close> when the working directory holds \<open>pre\<close>, which
  has no output file, followed by what is left of \<open>dir\<close> after the files named in \<open>D\<close>
  were deleted. If it returns, it has appended the file of every output of \<open>dir\<close>, in
  order, and the directory holds \<open>pre\<close> and the entries of \<open>dir\<close> that are not outputs.
\<close>

lemma extractOutputs_exact:
  assumes "extractOutputs env dir files w = (Inr res, w')"
    and "memfs w = pre @ filter (\<lambda>g. node_isDir g \<or> node_name g \<notin> D) dir"
    and "\<forall>g\<in>set pre. \<not> is_output g"
    and "\<forall>n\<in>D. startsWith ''output_'' n \<and> endsWith ''.mp4'' n"
  shows "res = files @ map toFile (filter is_output dir)
         \<and> memfs w' = pre @ filter (\<lambda>g. \<not> is_output g) dir"
  using assms
proof (induction dir arbitrary: files w pre D)
  case Nil
  then show ?case by (simp add: returnE_def)
next
  case (Cons f dir)
  let ?n = "node_name f"
  show ?case
  proof (cases "is_output f")
    case False
    have keep: "node_isDir f \<or> ?n \<notin> D"
      using False Cons.prems(4) by (auto simp: is_output_def)
    have run: "extractOutputs env dir files w = (Inr res, w')"
      using Cons.prems(1) False by simp
    have fs: "memfs w = (pre @ [f]) @ filter (\<lambda>g. node_isDir g \<or> node_name g \<notin> D) dir"
      using Cons.prems(2) keep by simp
    have pre: "\<forall>g\<in>set (pre @ [f]). \<not> is_output g"
      using Cons.prems(3) False by simp
    show ?thesis
      using Cons.IH [OF run fs pre Cons.prems(4)] False by simp
  next
    case True
    have nopre: "\<forall>g\<in>set pre. \<not> is_file ?n g"
      using Cons.prems(3) is_output_same_name [OF True] by blast
    from Cons.prems(1) True
    have "bindE (readFile env ?n) (\<lambda>data. thenE (deleteFile env ?n)
            (extractOutputs env dir (files @ [newFile data ?n ''video/mp4'']))) w = (Inr res, w')"
      by simp
    then obtain data w1 where rd: "readFile env ?n w = (Inr data, w1)"
      and rest: "thenE (deleteFile env ?n)
            (extractOutputs env dir (files @ [newFile data ?n ''video/mp4''])) w1 = (Inr res, w')"
      by (rule bindE_ok)
    from rest obtain u w2 where del: "deleteFile env ?n w1 = (Inr u, w2)"
      and run: "extractOutputs env dir (files @ [newFile data ?n ''video/mp4'']) w2 = (Inr res, w')"
      unfolding thenE_def by (rule bindE_ok)
    have m1: "memfs w1 = memfs w"
      using rd by (auto simp: readFile_eq performed_simps)
    obtain g where fnd: "find (is_file ?n) (memfs w) = Some g" and data: "data = node_data g"
      using rd by (auto simp: readFile_eq split: option.splits)
    have notD: "?n \<notin> D"
    proof
      assume "?n \<in> D"
      then have "\<forall>g\<in>set (filter (\<lambda>g. node_isDir g \<or> node_name g \<notin> D) (f # dir)). \<not> is_file ?n g"
        by (auto simp: is_file_def)
      then have "\<forall>g\<in>set (memfs w). \<not> is_file ?n g"
        using nopre Cons.prems(2) by auto
      then have "find (is_file ?n) (memfs w) = None"
        by (simp add: find_None_iff)
      then show False using fnd by simp
    qed
    then have fs: "memfs w = pre @ f # filter (\<lambda>g. node_isDir g \<or> node_name g \<notin> D) dir"
      using Cons.prems(2) by simp
    have "is_file ?n f" using True by (simp add: is_file_def is_output_def)
    then have "g = f" using fnd fs find_skip [OF nopre] by simp
    then have tf: "newFile data ?n ''video/mp4'' = toFile f"
      using data by (simp add: toFile_def)
    have "memfs w2 = filter (\<lambda>g. \<not> is_file ?n g) (memfs w1)"
      using del by (auto simp: deleteFile_eq split: option.splits if_splits)
    also have "\<dots> = filter (\<lambda>g. \<not> is_file ?n g) pre
        @ filter (\<lambda>g. \<not> is_file ?n g) (f # filter (\<lambda>g. node_isDir g \<or> node_name g \<notin> D) dir)"
      using m1 fs by simp
    also have "filter (\<lambda>g. \<not> is_file ?n g) pre = pre"
      using nopre by (simp add: filter_id_conv)
    also have "filter (\<lambda>g. \<not> is_file ?n g) (f # filter (\<lambda>g. node_isDir g \<or> node_name g \<notin> D) dir)
        = filter (\<lambda>g. node_isDir g \<or> node_name g \<notin> insert ?n D) dir"
      using \<open>is_file ?n f\<close> by (auto simp: is_file_def intro: filter_cong)
    finally have fs2: "memfs w2 = pre @ filter (\<lambda>g. node_isDir g \<or> node_name g \<notin> insert ?n D) dir" .
    have D2: "\<forall>n\<in>insert ?n D. startsWith ''output_'' n \<and> endsWith ''.mp4'' n"
      using Cons.prems(4) True by (simp add: is_output_def)
    show ?thesis
      using Cons.IH [OF run [unfolded tf] fs2 Cons.prems(3) D2] True by simp
  qed
qed

lemma extractOutputs_listing:
  "triple (\<lambda>w. memfs w = dir) (extractOutputs env dir [])
     (\<lambda>files w. files = map toFile (filter is_output dir)
        \<and> memfs w = filter (\<lambda>g. \<not> is_output g) dir)
     (\<lambda>e w. True)"
proof (rule tripleI)
  fix w :: world assume m: "memfs w = dir"
  obtain r w' where x: "extractOutputs env dir [] w = (r, w')"
    by (cases "extractOutputs env dir [] w")
  show "case extractOutputs env dir [] w of
          (Inr files, w') \<Rightarrow> files = map toFile (filter is_output dir)
             \<and> memfs w' = filter (\<lambda>g. \<not> is_output g) dir
        | (Inl e, w') \<Rightarrow> True"
  proof (cases r)
    case (Inl e)
    then show ?thesis using x by simp
  next
    case (Inr res)
    then show ?thesis
      using extractOutputs_exact [of env dir "[]" w res w' "[]" "{}"] x m by simp
  qed
qed

section \<open>Properties that every step keeps\<close>

lemma keepsI: "(\<And>w. P w \<Longrightarrow> P (snd (m w))) \<Longrightarrow> keeps P m"
  by (simp add: keeps_def)

lemma keepsD: "keeps P m \<Longrightarrow> P w \<Longrightarrow> m w = (r, w') \<Longrightarrow> P w'"
  by (auto simp: keeps_def dest!: spec [of _ w])

lemma keeps_returnE: "keeps P (returnE x)"
  by (simp add: keeps_def returnE_def)

lemma keeps_bindE:
  assumes m: "keeps P m" and f: "\<And>x. keeps P (f x)"
  shows "keeps P (bindE m f)"
proof (rule keepsI)
  fix w :: world assume p: "P w"
  obtain r w1 where mw: "m w = (r, w1)" by (cases "m w")
  have p1: "P w1" by (rule keepsD [OF m p mw])
  show "P (snd (bindE m f w))"
  proof (cases r)
    case (Inl e)
    then show ?thesis using mw p1 by (simp add: bindE_def)
  next
    case (Inr x)
    obtain r2 w2 where fw: "f x w1 = (r2, w2)" by (cases "f x w1")
    then show ?thesis using keepsD [OF f p1 fw] mw Inr by (simp add: bindE_def)
  qed
qed

lemma keeps_thenE: "keeps P m \<Longrightarrow> keeps P k \<Longrightarrow> keeps P (thenE m k)"
  by (simp add: thenE_def keeps_bindE)

lemma keeps_catchE:
  assumes m: "keeps P m" and h: "\<And>e w. P w \<Longrightarrow> P (h e w)"
  shows "keeps P (catchE m h)"
proof (rule keepsI)
  fix w :: world assume p: "P w"
  obtain r w1 where mw: "m w = (r, w1)" by (cases "m w")
  have p1: "P w1" by (rule keepsD [OF m p mw])
  show "P (snd (catchE m h w))"
    using mw p1 h by (cases r) (simp_all add: catchE_def)
qed

lemma stable_log: "stable P \<Longrightarrow> P w \<Longrightarrow> P (log env t m w)"
  by (simp add: stable_def log_def)

lemma stable_foldl_log: "stable P \<Longrightarrow> P w \<Longrightarrow> P (foldl (\<lambda>v m. log env t m v) w ms)"
  by (induction ms arbitrary: w) (simp_all add: stable_log)

lemma stable_performed: "stable P \<Longrightarrow> P w \<Longrightarrow> P (performed env c w)"
  unfolding performed_def by (rule stable_foldl_log) (simp_all add: stable_def)

lemma stable_memfs: "stable P \<Longrightarrow> P w \<Longrightarrow> P (w\<lparr>memfs := x\<rparr>)"
  by (simp add: stable_def)

lemma keeps_logE: "stable P \<Longrightarrow> keeps P (logE env t m)"
  by (simp add: keeps_def logE_def stable_log)

lemma keeps_onProgress: "stable P \<Longrightarrow> keeps P (onProgress p)"
  by (simp add: keeps_def onProgress_def stable_def)

lemma keeps_perform: "stable P \<Longrightarrow> keeps P (perform env c)"
  by (simp add: keeps_def perform_eq stable_performed)

lemma keeps_engineOp: "stable P \<Longrightarrow> keeps P (engineOp env c)"
  by (simp add: keeps_def engineOp_eq stable_performed stable_memfs)

lemma stable_listings: "stable P \<Longrightarrow> P w \<Longrightarrow> P (w\<lparr>listings := x\<rparr>)"
  by (simp add: stable_def)

lemma keeps_listDir: "stable P \<Longrightarrow> keeps P (listDir env path)"
  by (simp add: keeps_def listDir_eq stable_performed stable_listings split: option.splits)

lemma keeps_readFile: "stable P \<Longrightarrow> keeps P (readFile env n)"
  by (simp add: keeps_def readFile_eq stable_performed)

lemma keeps_deleteFile: "stable P \<Longrightarrow> keeps P (deleteFile env n)"
  by (simp add: keeps_def deleteFile_eq stable_performed stable_memfs split: option.splits)

lemma keeps_extractOutputs: "stable P \<Longrightarrow> keeps P (extractOutputs env dir files)"
  by (induction dir arbitrary: files)
     (simp_all add: keeps_returnE keeps_bindE keeps_thenE keeps_readFile keeps_deleteFile)

lemma keeps_cleanup: "stable P \<Longrightarrow> keeps P (catchE (unmountAndDelete env) warn)"
  unfolding unmountAndDelete_def
  by (intro keeps_catchE keeps_thenE keeps_engineOp) (simp_all add: warn_def stable_def)

lemma stable_calls_ex: "stable (\<lambda>w. list_ex Q (calls w))"
  by (simp add: stable_def)

lemma stable_logs_ex: "stable (\<lambda>w. list_ex Q (logs w))"
  by (simp add: stable_def)

lemma triple_keeps: "keeps P m \<Longrightarrow> triple P m (\<lambda>x. P) (\<lambda>e. P)"
  by (rule tripleI) (auto simp: keeps_def split: prod.splits sum.splits dest!: spec)

lemma keeps_then_step:
  assumes "keeps P m" and "\<And>e w. P w \<Longrightarrow> E e w" and "triple P k Q E"
  shows "triple P (thenE m k) Q E"
  by (rule triple_thenE [OF triple_conseq [OF triple_keeps [OF assms(1)]] assms(3)])
     (simp_all add: assms(2))

lemma any_then_step:
  assumes "triple (\<lambda>w. True) k Q (\<lambda>e w. True)"
  shows "triple (\<lambda>w. True) (thenE m k) Q (\<lambda>e w. True)"
  by (rule triple_thenE [OF _ assms]) (simp add: triple_def split: prod.splits sum.splits)

lemma triple_conj:
  assumes "triple P1 m Q1 E1" and "triple P2 m Q2 E2"
  shows "triple (\<lambda>w. P1 w \<and> P2 w) m (\<lambda>x w. Q1 x w \<and> Q2 x w) (\<lambda>e w. E1 e w \<and> E2 e w)"
proof (rule tripleI)
  fix w :: world assume p: "P1 w \<and> P2 w"
  obtain r w1 where mw: "m w = (r, w1)" by (cases "m w")
  show "case m w of (Inr x, w') \<Rightarrow> Q1 x w' \<and> Q2 x w' | (Inl e, w') \<Rightarrow> E1 e w' \<and> E2 e w'"
  proof (cases r)
    case (Inl e)
    then show ?thesis
      using triple_err [OF assms(1), of w e w1] triple_err [OF assms(2), of w e w1] p mw
      by simp
  next
    case (Inr x)
    then show ?thesis
      using triple_ok [OF assms(1), of w x w1] triple_ok [OF assms(2), of w x w1] p mw
      by simp
  qed
qed

section \<open>What a successful call returns and leaves behind\<close>

lemma frame_cleanup:
  assumes "\<And>w f. g (w\<lparr>logs := f\<rparr>) = g w" and "\<And>w f. g (w\<lparr>calls := f\<rparr>) = g w"
    and "\<And>w f. g (w\<lparr>memfs := f\<rparr>) = g w" and "\<And>w f. g (w\<lparr>console := f\<rparr>) = g w"
  shows "frame g (catchE (unmountAndDelete env) warn)"
  by (intro frame_catchE frame_unmountAndDelete) (simp_all add: warn_def assms)

text \<open>
  If the body of \<^verbatim>\<open>splitVideo\<close> returns, \<^verbatim>\<open>listDir\<close> was called once in it; with \<open>dir\<close> the
  listing it returned, the files returned are those of the outputs of \<open>dir\<close>, in the order
  of \<open>dir\<close>, and the working directory holds the other entries of \<open>dir\<close>.
\<close>

lemma split_body_listing:
  "triple (\<lambda>w. listings w = L) (split_body env safe d)
     (\<lambda>files w. \<exists>dir. listings w = L @ [dir]
        \<and> files = map toFile (filter is_output dir)
        \<and> memfs w = filter (\<lambda>g. \<not> is_output g) dir)
     (\<lambda>e w. True)"
proof -
  let ?Q = "\<lambda>files w. \<exists>dir. listings w = L @ [dir]
        \<and> files = map toFile (filter is_output dir)
        \<and> memfs w = filter (\<lambda>g. \<not> is_output g) dir"
  have ls: "triple (\<lambda>w. listings w = L) (listDir env ''.'')
      (\<lambda>dir w. memfs w = dir \<and> listings w = L @ [dir]) (\<lambda>e w. True)"
    by (rule tripleI) (simp add: listDir_eq performed_simps split: option.splits)
  have xt: "triple (\<lambda>w. memfs w = dir \<and> listings w = L @ [dir]) (extractOutputs env dir [])
      (\<lambda>files w. (files = map toFile (filter is_output dir)
          \<and> memfs w = filter (\<lambda>g. \<not> is_output g) dir) \<and> listings w = L @ [dir])
      (\<lambda>e w. True)" for dir
  proof -
    have "frame listings (extractOutputs env dir [])"
      by (rule frame_extractOutputs) simp_all
    then have fr: "triple (\<lambda>w. listings w = L @ [dir]) (extractOutputs env dir [])
        (\<lambda>x w. listings w = L @ [dir]) (\<lambda>e w. listings w = L @ [dir])"
      by (rule triple_frame)
    show ?thesis
      by (rule triple_conseq [OF triple_conj [OF extractOutputs_listing fr]]) simp_all
  qed
  have fin: "triple (\<lambda>w. (files = map toFile (filter is_output dir)
          \<and> memfs w = filter (\<lambda>g. \<not> is_output g) dir) \<and> listings w = L @ [dir])
      (thenE (onProgress 100) (returnE files)) ?Q (\<lambda>e w. True)" for files dir
    by (rule tripleI) (auto simp: thenE_def bindE_def onProgress_def returnE_def)
  show ?thesis
    unfolding split_body_def
    apply (rule frame_then_step [where g = listings], (rule frame_logE, simp), simp)
    apply (rule frame_then_step [where g = listings], (rule frame_engineOp; simp), simp)
    apply (rule frame_then_step [where g = listings], (rule frame_engineOp; simp), simp)
    apply (rule frame_then_step [where g = listings], (rule frame_logE, simp), simp)
    apply (rule frame_then_step [where g = listings], (rule frame_onProgress, simp), simp)
    apply (rule frame_then_step [where g = listings], (rule frame_engineOp; simp), simp)
    apply (rule frame_then_step [where g = listings], (rule frame_onProgress, simp), simp)
    apply (rule frame_then_step [where g = listings], (rule frame_logE, simp), simp)
    apply (rule frame_then_step [where g = listings], (rule frame_cleanup; simp), simp)
    apply (rule triple_bindE [OF ls])
    apply (rule triple_bindE [OF xt])
    apply (rule fin)
    done
qed

text \<open>If the body of \<^verbatim>\<open>splitVideo\<close> returns, it has run the engine with the arguments.\<close>

lemma split_body_exec:
  "triple (\<lambda>w. True) (split_body env safe d)
     (\<lambda>files w. list_ex (\<lambda>c. c = Exec (exec_args d)) (calls w)) (\<lambda>e w. True)"
proof -
  let ?X = "\<lambda>w. list_ex (\<lambda>c. c = Exec (exec_args d)) (calls w)"
  have X: "stable ?X" by (rule stable_calls_ex)
  have ex: "triple (\<lambda>w. True) (engineOp env (Exec (exec_args d))) (\<lambda>u. ?X) (\<lambda>e w. True)"
    by (rule tripleI) (simp add: engineOp_eq performed_simps split: option.splits)
  have tail: "keeps ?X
      (thenE (onProgress 80)
      (thenE (logE env Success ''Segmentation complete. Processing output files...'')
      (thenE (catchE (unmountAndDelete env) warn)
      (bindE (listDir env ''.'') (\<lambda>dir.
       bindE (extractOutputs env dir []) (\<lambda>files.
       thenE (onProgress 100) (returnE files)))))))"
    by (intro keeps_thenE keeps_bindE keeps_onProgress keeps_logE keeps_cleanup keeps_listDir
          keeps_extractOutputs keeps_returnE X)
  show ?thesis
    unfolding split_body_def
    apply (rule any_then_step)
    apply (rule any_then_step)
    apply (rule any_then_step)
    apply (rule any_then_step)
    apply (rule any_then_step)
    apply (rule triple_thenE [OF ex])
    apply (rule triple_conseq [OF triple_keeps [OF tail]])
      apply simp_all
    done
qed

lemma listings_load: "listings (snd (load env w)) = listings w"
proof -
  have "frame listings (load_body env)" by (rule frame_load_body) simp_all
  then show ?thesis
    by (auto simp: load_def log_def frame_def split: prod.splits sum.splits
          dest!: spec [of _ w])
qed

lemma splitVideo_result:
  assumes "fst (splitVideo env file d w) = Inr files"
  shows "\<exists>dir. listings (snd (splitVideo env file d w)) = listings w @ [dir]
           \<and> files = map toFile (filter is_output dir)
           \<and> memfs (snd (splitVideo env file d w)) = filter (\<lambda>g. \<not> is_output g) dir"
    and "list_ex (\<lambda>c. c = Exec (exec_args d)) (calls (snd (splitVideo env file d w)))"
proof -
  obtain r w1 where l: "load env w = (r, w1)" by (cases "load env w")
  obtain r2 w2 where b: "split_body env (safeFile file) d w1 = (r2, w2)"
    by (cases "split_body env (safeFile file) d w1")
  from assms l have r: "r = Inr ()" by (cases r) (simp_all add: splitVideo_eq)
  from assms l b r have r2: "r2 = Inr files" by (cases r2) (simp_all add: splitVideo_eq)
  have s: "splitVideo env file d w = (Inr files, w2)"
    using l b r r2 by (simp add: splitVideo_eq)
  have l1: "listings w1 = listings w" using listings_load [of env w] l by simp
  have "\<exists>dir. listings w2 = listings w @ [dir]
           \<and> files = map toFile (filter is_output dir)
           \<and> memfs w2 = filter (\<lambda>g. \<not> is_output g) dir"
    using triple_ok [OF split_body_listing l1 b [unfolded r2]] by simp
  then show "\<exists>dir. listings (snd (splitVideo env file d w)) = listings w @ [dir]
           \<and> files = map toFile (filter is_output dir)
           \<and> memfs (snd (splitVideo env file d w)) = filter (\<lambda>g. \<not> is_output g) dir"
    using s by simp
  have "list_ex (\<lambda>c. c = Exec (exec_args d)) (calls w2)"
    using triple_ok [OF split_body_exec _ b [unfolded r2]] by simp
  then show "list_ex (\<lambda>c. c = Exec (exec_args d)) (calls (snd (splitVideo env file d w)))"
    using s by simp
qed

section \<open>Runs on the sample inputs\<close>

lemmas run_defs = splitVideo_def load_def split_body_def thenE_def bindE_def catchE_def
  returnE_def logE_def log_def onProgress_def engineOp_eq perform_eq performed_def
  readFile_eq deleteFile_eq listDir_eq unmountAndDelete_def on_split_error_def warn_def
  safeFile_def is_output_def is_file_def startsWith_def endsWith_def newFile_def
  exec_args_def

lemmas sample_defs = good_env_def loaded_world_def fresh_world_def mkv_file_def segments_def

lemma good_run:
  "fst (splitVideo good_env mkv_file 30 loaded_world)
     = Inr [\<lparr>file_name = ''output_000.mp4'', file_type = ''video/mp4'', file_size = 2,
              file_data = [1, 2]\<rparr>,
            \<lparr>file_name = ''output_001.mp4'', file_type = ''video/mp4'', file_size = 1,
              file_data = [3]\<rparr>]"
  "memfs (snd (splitVideo good_env mkv_file 30 loaded_world)) = []"
  by (simp_all add: run_defs sample_defs)

lemma read_fails_run:
  "fst (splitVideo read_fails_env mkv_file 30 loaded_world) = Inl (SegmentError ''read failed'')"
  "memfs (snd (splitVideo read_fails_env mkv_file 30 loaded_world))
     = [\<lparr>node_name = ''output_001.mp4'', node_isDir = False, node_data = [3]\<rparr>]"
  by (simp_all add: run_defs read_fails_env_def sample_defs)

lemma output_name_1: "output_name 1 = ''output_001.mp4''"
  by code_simp

lemma output_name_is_output: "is_file (output_name k) f \<Longrightarrow> is_output f"
  by (simp add: is_file_def is_output_def output_name_def startsWith_def endsWith_def)

section \<open>The working directory after a call\<close>

text \<open>
  C1, as the spec states it, fails: when reading the second segment throws, the call
  throws and the working directory still holds \<^verbatim>\<open>output_001.mp4\<close>. The \<^verbatim>\<open>catch\<close> block
  unmounts the input and deletes the mount point; it deletes no output.
\<close>

theorem outputs_left_on_failure:
  "fst (splitVideo read_fails_env mkv_file 30 loaded_world) = Inl (SegmentError ''read failed'')
   \<and> memfs (snd (splitVideo read_fails_env mkv_file 30 loaded_world))
       = [\<lparr>node_name = ''output_001.mp4'', node_isDir = False, node_data = [3]\<rparr>]
   \<and> list_ex (is_file (output_name 1))
       (memfs (snd (splitVideo read_fails_env mkv_file 30 loaded_world)))"
  unfolding read_fails_run output_name_1 by (simp add: is_file_def)

text \<open>
  C1, amended. After a call of \<^verbatim>\<open>splitVideo\<close> that returns, the working directory holds no
  file whose name starts with \<^verbatim>\<open>output_\<close> and ends with \<^verbatim>\<open>.mp4\<close>, so none named by the
  output pattern.
\<close>

theorem outputs_drained_on_success:
  assumes "fst (splitVideo env file d w) = Inr files"
  shows "list_all (\<lambda>f. \<not> is_output f) (memfs (snd (splitVideo env file d w)))
         \<and> \<not> list_ex (is_file (output_name k)) (memfs (snd (splitVideo env file d w)))"
proof -
  obtain dir where "memfs (snd (splitVideo env file d w)) = filter (\<lambda>g. \<not> is_output g) dir"
    using splitVideo_result(1) [OF assms] by blast
  then have a: "list_all (\<lambda>f. \<not> is_output f) (memfs (snd (splitVideo env file d w)))"
    by (simp add: list_all_iff)
  then have "\<not> list_ex (is_file (output_name k)) (memfs (snd (splitVideo env file d w)))"
    using output_name_is_output [of k] by (auto simp: list_all_iff list_ex_iff)
  then show ?thesis using a by simp
qed

theorem outputs_drained_on_success_witness:
  "fst (splitVideo good_env mkv_file 30 loaded_world)
     = Inr [\<lparr>file_name = ''output_000.mp4'', file_type = ''video/mp4'', file_size = 2,
              file_data = [1, 2]\<rparr>,
            \<lparr>file_name = ''output_001.mp4'', file_type = ''video/mp4'', file_size = 1,
              file_data = [3]\<rparr>]
   \<and> list_all (\<lambda>f. \<not> is_output f) (memfs (snd (splitVideo good_env mkv_file 30 loaded_world)))
   \<and> \<not> list_ex (is_file (output_name 1))
         (memfs (snd (splitVideo good_env mkv_file 30 loaded_world)))"
  using outputs_drained_on_success [OF good_run(1), of 1] good_run(1) by blast

section \<open>What a successful call returns\<close>

text \<open>
  C7, as the spec states it, fails: for a Matroska input the files returned are typed
  \<^verbatim>\<open>video/mp4\<close>. The type and the extension of the outputs are fixed in the code.
\<close>

theorem outputs_typed_mp4:
  "fst (splitVideo good_env mkv_file 30 loaded_world)
     = Inr [\<lparr>file_name = ''output_000.mp4'', file_type = ''video/mp4'', file_size = 2,
              file_data = [1, 2]\<rparr>,
            \<lparr>file_name = ''output_001.mp4'', file_type = ''video/mp4'', file_size = 1,
              file_data = [3]\<rparr>]
   \<and> file_type mkv_file = ''video/x-matroska''
   \<and> file_type mkv_file \<noteq> ''video/mp4''"
  using good_run(1) by (simp add: mkv_file_def)

text \<open>
  C7, amended. A call of \<^verbatim>\<open>splitVideo\<close> that returns has listed the working directory
  once; with \<open>dir\<close> the listing the engine returned, it gives back, in the order of
  \<open>dir\<close>, one file for each entry of the listing that is a file whose name
  starts with \<^verbatim>\<open>output_\<close> and ends with \<^verbatim>\<open>.mp4\<close>, with the name and the bytes of the entry;
  each is typed \<^verbatim>\<open>video/mp4\<close>, whatever the type of the input; the engine was run with
  the stream-copy arguments; and every name of the output pattern passes the test on
  names.
\<close>

theorem splitVideo_returns_outputs:
  assumes "fst (splitVideo env file d w) = Inr files"
  shows "(\<exists>dir. listings (snd (splitVideo env file d w)) = listings w @ [dir]
            \<and> files = map toFile (filter is_output dir)
            \<and> memfs (snd (splitVideo env file d w)) = filter (\<lambda>g. \<not> is_output g) dir)
         \<and> list_all (\<lambda>f. file_type f = ''video/mp4'' \<and> startsWith ''output_'' (file_name f)
               \<and> endsWith ''.mp4'' (file_name f)) files
         \<and> list_ex (\<lambda>c. c = Exec [''-i'', ''/input_mount/input.mp4'', ''-c'', ''copy'',
               ''-map'', ''0'', ''-f'', ''segment'', ''-segment_time'', toString d,
               ''-reset_timestamps'', ''1'', ''output_%03d.mp4''])
             (calls (snd (splitVideo env file d w)))
         \<and> startsWith ''output_'' (output_name k) \<and> endsWith ''.mp4'' (output_name k)"
proof -
  obtain dir where l: "listings (snd (splitVideo env file d w)) = listings w @ [dir]"
    and f: "files = map toFile (filter is_output dir)"
    and m: "memfs (snd (splitVideo env file d w)) = filter (\<lambda>g. \<not> is_output g) dir"
    using splitVideo_result(1) [OF assms] by blast
  have t: "list_all (\<lambda>f. file_type f = ''video/mp4'' \<and> startsWith ''output_'' (file_name f)
               \<and> endsWith ''.mp4'' (file_name f)) files"
    unfolding f by (simp add: list_all_iff toFile_def newFile_def is_output_def)
  have a: "exec_args d = [''-i'', ''/input_mount/input.mp4'', ''-c'', ''copy'',
               ''-map'', ''0'', ''-f'', ''segment'', ''-segment_time'', toString d,
               ''-reset_timestamps'', ''1'', ''output_%03d.mp4'']"
    by (simp add: exec_args_def inputPath_def mountDir_def inputFileName_def outputPattern_def)
  have n: "startsWith ''output_'' (output_name k) \<and> endsWith ''.mp4'' (output_name k)"
    by (simp add: output_name_def startsWith_def endsWith_def)
  show ?thesis
    using l f m t n splitVideo_result(2) [OF assms] unfolding a by blast
qed

theorem splitVideo_returns_outputs_witness:
  "fst (splitVideo good_env mkv_file 30 loaded_world)
     = Inr [\<lparr>file_name = ''output_000.mp4'', file_type = ''video/mp4'', file_size = 2,
              file_data = [1, 2]\<rparr>,
            \<lparr>file_name = ''output_001.mp4'', file_type = ''video/mp4'', file_size = 1,
              file_data = [3]\<rparr>]
   \<and> list_ex (\<lambda>c. c = Exec [''-i'', ''/input_mount/input.mp4'', ''-c'', ''copy'',
               ''-map'', ''0'', ''-f'', ''segment'', ''-segment_time'', toString 30,
               ''-reset_timestamps'', ''1'', ''output_%03d.mp4''])
             (calls (snd (splitVideo good_env mkv_file 30 loaded_world)))"
  using splitVideo_returns_outputs [OF good_run(1)] good_run(1) by blast

section \<open>Patching the worker script\<close>

lemma quote_not_space: "is_quote c \<Longrightarrow> \<not> is_space c"
  by (auto simp: is_quote_def is_space_def)

lemma quote_not_in_name: "is_quote c \<Longrightarrow> \<not> in_name c"
  by (simp add: in_name_def)

lemma match_import_render:
  assumes "well_formed r"
  shows "match_import (render r @ rest) = (case r of Ref ws q1 name q2 \<Rightarrow> Some (name, rest))"
proof (cases r)
  case (Ref ws q1 name q2)
  have ws: "\<And>x. x \<in> set ws \<Longrightarrow> is_space x" and q1: "is_quote q1" and q2: "is_quote q2"
    and nm: "\<And>x. x \<in> set name \<Longrightarrow> in_name x"
    using assms Ref by (simp_all add: list_all_iff)
  have d1: "dropWhile is_space (ws @ q1 # ''./'' @ name @ q2 # rest) = q1 # ''./'' @ name @ q2 # rest"
    using ws quote_not_space [OF q1] by simp
  have d2: "dropWhile in_name (name @ q2 # rest) = q2 # rest"
    using nm quote_not_in_name [OF q2] by simp
  have t2: "takeWhile in_name (name @ q2 # rest) = name"
    using nm quote_not_in_name [OF q2] by simp
  show ?thesis
    using d1 d2 t2 q1 q2 by (simp add: Ref match_import_def startsWith_def)
qed

lemma replace_imports_skip:
  "no_match_in t rest \<Longrightarrow> replace_imports base (t @ rest) = t @ replace_imports base rest"
  by (induction t) simp_all

lemma replace_imports_render:
  "well_formed r \<Longrightarrow>
   replace_imports base (render r @ rest) = absolute base r @ replace_imports base rest"
proof (cases r)
  case (Ref ws q1 name q2)
  assume w: "well_formed r"
  obtain c cs where s: "render r @ rest = c # cs" by (cases "render r @ rest") (simp_all add: Ref)
  have "match_import (c # cs) = Some (name, rest)"
    using match_import_render [OF w, of rest] s Ref by simp
  then have "replace_imports base (c # cs)
      = ''from '' @ [CHR 0x27] @ base @ ''/'' @ name @ [CHR 0x27] @ replace_imports base rest"
    by simp
  then show ?thesis using s Ref by simp
qed

lemma replace_imports_listed:
  "references_listed ps end_text \<Longrightarrow>
   replace_imports base (assemble ps end_text) = rewritten base ps end_text"
proof (induction ps)
  case Nil
  then show ?case using replace_imports_skip [of end_text "[]" base] by simp
next
  case (Cons p ps)
  obtain t r where p: "p = (t, r)" by (cases p)
  show ?case
    using Cons p by (simp add: replace_imports_skip replace_imports_render)
qed

lemma keeps_createObjectURL: "stable P \<Longrightarrow> keeps P (createObjectURL env content mime)"
  by (simp add: keeps_def createObjectURL_def Let_def thenE_def bindE_def returnE_def
        perform_eq stable_performed split: option.splits)

lemma keeps_toBlobURL: "stable P \<Longrightarrow> keeps P (toBlobURL env url mime)"
  by (simp add: keeps_def toBlobURL_def Let_def thenE_def bindE_def returnE_def
        perform_eq stable_performed split: option.splits)

lemma keeps_markLoaded: "stable P \<Longrightarrow> keeps P markLoaded"
  by (simp add: keeps_def markLoaded_def stable_def)

lemma stable_warned: "stable warned"
  unfolding warned_def by (rule stable_logs_ex)

lemma warned_log: "warned (log env Info no_imports_warning w)"
  by (simp add: warned_def log_def)

lemma warn_then:
  assumes "keeps warned K"
  shows "triple P (thenE (logE env t m) (thenE (logE env Info no_imports_warning) K))
           (\<lambda>u. warned) (\<lambda>e. warned)"
proof (rule tripleI)
  fix w :: world
  let ?w = "log env Info no_imports_warning (log env t m w)"
  obtain r w' where k: "K ?w = (r, w')" by (cases "K ?w")
  have "warned w'" by (rule keepsD [OF assms warned_log k])
  then show "case thenE (logE env t m) (thenE (logE env Info no_imports_warning) K) w of
          (Inr x, w') \<Rightarrow> warned w' | (Inl e, w') \<Rightarrow> warned w'"
    using k by (cases r) (simp_all add: thenE_def bindE_def logE_def)
qed

lemma load_body_warns:
  assumes "fetched env h = Some s" and "replace_imports baseURL s = s"
  shows "triple (St h False) (load_body env) (\<lambda>u. warned) (\<lambda>e. warned)"
proof -
  have sf: "step_failure env h (Fetch (baseURL @ ''/worker.js'')) = None"
    and ft: "fault env (h @ [Fetch (baseURL @ ''/worker.js'')]) ResponseText = None"
    and body: "snd (snd (response env h (baseURL @ ''/worker.js''))) = s"
    using assms(1) by (simp_all add: fetched_def split: if_splits)
  show ?thesis
    unfolding load_body_def Let_def
    apply (rule St_logE_then)
    apply (rule St_if_logE_then)
    apply (rule St_logE_then)
    apply (rule St_logE_then)
    apply (rule St_fetchWorker_bind)
      subgoal using sf by simp
     subgoal using ft by simp
    apply (simp only: body assms(2) if_True refl)
    apply (rule warn_then)
    apply (intro keeps_bindE keeps_thenE keeps_logE keeps_createObjectURL keeps_toBlobURL
        keeps_engineOp keeps_markLoaded stable_warned)
    done
qed

lemma load_warns:
  assumes "\<not> loaded w" and "fetched env (calls w) = Some s" and "replace_imports baseURL s = s"
  shows "warned (snd (load env w))"
proof -
  obtain r w' where b: "load_body env w = (r, w')" by (cases "load_body env w")
  have st: "St (calls w) False w" using assms(1) by (simp add: St_def)
  have "warned w'"
    using triple_ok [OF load_body_warns [OF assms(2,3)] st] triple_err [OF load_body_warns [OF assms(2,3)] st] b
    by (cases r) simp_all
  then show ?thesis
    using assms(1) b stable_log [OF stable_warned] by (cases r) (simp_all add: load_def)
qed

lemma overlap_result:
  "replace_imports baseURL overlap_script
     = ''/* from '' @ [CHR 0x27] @ baseURL @ ''/x */import{a}from'./b.js\"''"
  by (simp add: overlap_script_def match_import_def startsWith_def is_space_def is_quote_def
        in_name_def is_line_terminator_def)

text \<open>
  C2, as the spec states it, fails: in \<open>overlap_script\<close> the minified reference
  \<^verbatim>\<open>from"./b.js"\<close> is not rewritten. The match that starts at the \<^verbatim>\<open>from './x\<close> of the
  comment runs to the next quote, which is the opening quote of the reference, and the
  scan goes on after it. The result still holds a relative reference, \<^verbatim>\<open>from'./b.js"\<close>.
\<close>

theorem reference_left_relative:
  "replace_imports baseURL overlap_script
     = ''/* from '' @ [CHR 0x27] @ baseURL @ ''/x */import{a}from'./b.js\"''
   \<and> match_import ''from'./b.js\"'' = Some (''b.js'', [])
   \<and> overlap_script = ''/* from './x */import{a}'' @ render (Ref [] CHR 0x22 ''b.js'' CHR 0x22)
   \<and> well_formed (Ref [] CHR 0x22 ''b.js'' CHR 0x22)"
  unfolding overlap_result
  by (simp add: overlap_script_def match_import_def startsWith_def is_space_def is_quote_def
        in_name_def is_line_terminator_def)

text \<open>
  C2, amended. The rewriting replaces the matches that a scan from the left finds. For a
  script whose references are well formed and are all there is to match (no match starts
  in the text between them), every reference, with or without white space and with
  either quote, becomes \<^verbatim>\<open>from 'base/X'\<close> with the same base, and the text between is
  kept; when there is no reference the script is unchanged, and \<^verbatim>\<open>load\<close>, having fetched
  such a script, logs the warning.
\<close>

theorem patch_rewrites_listed_references:
  assumes "references_listed ps end_text"
  shows "replace_imports base (assemble ps end_text) = rewritten base ps end_text
         \<and> (ps = [] \<longrightarrow> replace_imports base end_text = end_text)
         \<and> (ps = [] \<and> \<not> loaded w \<and> fetched env (calls w) = Some end_text
              \<longrightarrow> warned (snd (load env w)))"
proof -
  have a: "replace_imports b (assemble ps end_text) = rewritten b ps end_text" for b
    by (rule replace_imports_listed [OF assms])
  then have u: "ps = [] \<Longrightarrow> replace_imports b end_text = end_text" for b
    using a [of b] by simp
  show ?thesis
    using a [of base] u [of base] load_warns [of w env end_text, OF _ _ u [of baseURL]]
    by blast
qed

theorem patch_rewrites_listed_references_witness:
  "references_listed
     [(''import{FFmpeg}'', Ref [] CHR 0x22 ''classes.js'' CHR 0x22),
      ('';import {x} '', Ref '' '' CHR 0x27 ''util.js'' CHR 0x27)] '';''
   \<and> replace_imports ''https://cdn/esm''
        ''import{FFmpeg}from\"./classes.js\";import {x} from './util.js';''
      = ''import{FFmpeg}from 'https://cdn/esm/classes.js';import {x} from 'https://cdn/esm/util.js';''
   \<and> references_listed [] ''self.onmessage=f;''
   \<and> \<not> loaded fresh_world
   \<and> fetched plain_script_env (calls fresh_world) = Some ''self.onmessage=f;''
   \<and> replace_imports baseURL ''self.onmessage=f;'' = ''self.onmessage=f;''
   \<and> warned (snd (load plain_script_env fresh_world))"
proof -
  have a: "references_listed
     [(''import{FFmpeg}'', Ref [] CHR 0x22 ''classes.js'' CHR 0x22),
      ('';import {x} '', Ref '' '' CHR 0x27 ''util.js'' CHR 0x27)] '';''"
    by (simp add: match_import_def startsWith_def is_space_def is_quote_def in_name_def
          is_line_terminator_def)
  have b: "references_listed [] ''self.onmessage=f;''"
    by (simp add: match_import_def startsWith_def)
  have c: "\<not> loaded fresh_world" by (simp add: fresh_world_def)
  have d: "fetched plain_script_env (calls fresh_world) = Some ''self.onmessage=f;''"
    by (simp add: fetched_def step_failure_def plain_script_env_def good_env_def)
  show ?thesis
    using patch_rewrites_listed_references [OF a, of "''https://cdn/esm''"]
      patch_rewrites_listed_references [OF b, of baseURL fresh_world plain_script_env]
      a b c d
    by simp
qed

end
